theory Spec2Isabelle
  imports Main "HOL-Library.Code_Target_Nat"
begin

section \<open>Element types\<close>

text \<open>
  \<open>Vector<T>\<close> of \<open>vector.h\<close> is generic in the element type. What the container
  needs to know about \<open>T\<close> is collected in a record: \<open>sizeof(T)\<close>, which
  \<open>RawMemory::Allocate\<close> multiplies by the number of slots; the two compile-time traits
  the source queries (\<open>std::is_nothrow_move_constructible_v<T>\<close> and
  \<open>std::is_copy_constructible_v<T>\<close>); whether the destructor of \<open>T\<close> is trivial; which
  calls of \<open>T\<close>'s constructors and assignment operators throw (decided by the value
  involved); the state a moved-from object is left in; and the value of a value-initialised
  \<open>T\<close>. Destructors do not throw. Every type of the language has a positive size, and a
  type whose move constructor is \<open>noexcept\<close> has \<open>throws T MoveCtor x = False\<close>.
\<close>

datatype member = ArgsCtor | ValueCtor | CopyCtor | MoveCtor | CopyAssign | MoveAssign | Dtor

record 'a traits =
  size_of :: nat
  nothrow_move_constructible :: bool
  copy_constructible :: bool
  trivially_destructible :: bool
  throws :: "member \<Rightarrow> 'a \<Rightarrow> bool"
  moved_from :: "'a \<Rightarrow> 'a"
  value_init :: 'a

text \<open>
  Every operation returns, besides its result, the calls of \<open>T\<close>'s member functions
  it made, in program order (a call that throws is listed too). \<open>Leak\<close> is recorded once
  for every object that is still alive in a block of raw memory when the block is released.
\<close>

datatype event = Call member | Leak

text \<open>
  An operation returns normally, lets an exception of \<open>T\<close> escape to its caller, or has
  no defined continuation: a failed \<open>assert\<close>, or a violated precondition of the
  operation or of a standard algorithm (undefined behaviour in a release build).
\<close>

datatype 'r outcome = Returned 'r | Threw | Abort

text \<open>
  The argument of \<open>PushBack\<close>, \<open>EmplaceBack\<close>, \<open>Emplace\<close> and \<open>Insert\<close>, from which
  the new element is built by \<open>T(std::forward<...>(...))\<close>: an lvalue of \<open>T\<close> selects the
  copy constructor, an rvalue of \<open>T\<close> the move constructor, anything else another
  constructor of \<open>T\<close>. In each case the value given is the value of the object that is
  built. The argument is an object of the caller, outside the vector.
\<close>

datatype 'a argument = Lvalue 'a | Rvalue 'a | Args 'a

fun constructor_of :: "'a argument \<Rightarrow> member" where
  "constructor_of (Lvalue x) = CopyCtor"
| "constructor_of (Rvalue x) = MoveCtor"
| "constructor_of (Args x) = ArgsCtor"

fun value_of :: "'a argument \<Rightarrow> 'a" where
  "value_of (Lvalue x) = x"
| "value_of (Rvalue x) = x"
| "value_of (Args x) = x"

section \<open>Sizes\<close>

text \<open>
  Sizes, capacities and offsets are \<open>size_t\<close> values, taken to have 64 bits: natural numbers
  below \<open>size_t_bound\<close>. The two products the source computes from them are written with
  their wrap-around: \<open>n * sizeof(T)\<close> in \<open>RawMemory::Allocate\<close>, and \<open>size_ * 2\<close> where
  \<open>PushBack\<close>, \<open>EmplaceBack\<close> and \<open>Emplace\<close> grow the storage. \<open>fits T n\<close>: the byte
  size of \<open>n\<close> objects of \<open>T\<close> is a \<open>size_t\<close> value.
\<close>

definition size_t_bound :: nat where
  "size_t_bound = 2 ^ 64"

definition fits :: "'a traits \<Rightarrow> nat \<Rightarrow> bool" where
  "fits T n = (0 < size_of T \<and> n * size_of T < size_t_bound)"

section \<open>RawMemory\<close>

text \<open>
  A \<open>RawMemory<T>\<close> holds a pointer \<open>buffer_\<close> to a block of raw memory and the number
  \<open>capacity_\<close> it was constructed with; it never constructs or destroys a \<open>T\<close>. The class
  is not copyable (copy constructor and copy assignment are deleted) and its move operations
  empty the source, so no two objects ever share a block: the block is modelled as a value,
  the list of the slots it really has. A slot is \<open>None\<close> when it is raw memory and
  \<open>Some x\<close> when it holds a live object of value \<open>x\<close>. \<open>buffer_ = nullptr\<close> is the empty
  list.
\<close>

type_synonym 'a block = "'a option list"

record 'a RawMemory =
  buffer' :: "'a block"
  capacity' :: nat

text \<open>
  \<open>Allocate(n)\<close> is \<open>n != 0 ? operator new(n * sizeof(T)) : nullptr\<close>. The product is
  computed in \<open>size_t\<close>; the block that \<open>operator new\<close> returns for that many bytes has
  room for the quotient by \<open>sizeof(T)\<close> objects, which is \<open>n\<close> only if the product did not
  wrap. \<open>operator new\<close> is taken to succeed (no \<open>std::bad_alloc\<close>).
\<close>

definition Allocate :: "'a traits \<Rightarrow> nat \<Rightarrow> 'a block" where
  "Allocate T n =
     (if n \<noteq> 0 then replicate ((n * size_of T) mod size_t_bound div size_of T) None else [])"

definition Deallocate :: "'a block \<Rightarrow> event list" where
  "Deallocate m = replicate (length (filter (\<lambda>s. s \<noteq> None) m)) Leak"

text \<open>
  \<open>RawMemory()\<close>, \<open>RawMemory(capacity)\<close>, \<open>Capacity()\<close>, the move constructor (the pair
  of the new object and the emptied source) and \<open>Swap\<close>. \<open>capacity_\<close> is the number the
  constructor was given, whatever block \<open>Allocate\<close> returned.
\<close>

definition RawMemory_default :: "'a RawMemory" where
  "RawMemory_default = \<lparr>buffer' = [], capacity' = 0\<rparr>"

definition RawMemory_new :: "'a traits \<Rightarrow> nat \<Rightarrow> 'a RawMemory" where
  "RawMemory_new T capacity = \<lparr>buffer' = Allocate T capacity, capacity' = capacity\<rparr>"

definition RawMemory_Capacity :: "'a RawMemory \<Rightarrow> nat" where
  "RawMemory_Capacity m = capacity' m"

definition RawMemory_move :: "'a RawMemory \<Rightarrow> 'a RawMemory \<times> 'a RawMemory" where
  "RawMemory_move other = (other, RawMemory_default)"

definition RawMemory_Swap :: "'a RawMemory \<Rightarrow> 'a RawMemory \<Rightarrow> 'a RawMemory \<times> 'a RawMemory" where
  "RawMemory_Swap this other = (other, this)"

section \<open>Placement construction, destruction and the standard algorithms\<close>

text \<open>
  The algorithms work on pointers into blocks, here a block and an offset. \<open>live m i n\<close>:
  the range of \<open>n\<close> slots from offset \<open>i\<close> lies in the block and every slot of it holds a
  live object; \<open>objects m i n\<close> are their values.
\<close>

definition live :: "'a block \<Rightarrow> nat \<Rightarrow> nat \<Rightarrow> bool" where
  "live m i n = (i + n \<le> length m \<and> list_all (\<lambda>s. s \<noteq> None) (take n (drop i m)))"

definition objects :: "'a block \<Rightarrow> nat \<Rightarrow> nat \<Rightarrow> 'a list" where
  "objects m i n = map the (take n (drop i m))"

text \<open>
  \<open>new (m + i) T(...)\<close> with constructor \<open>k\<close>, giving an object of value \<open>x\<close>. An
  offset outside the block the pointer really points to has no defined result. The slot is
  not looked at: constructing over a live object replaces it without a destructor call, as
  placement new does.
\<close>

definition construct_at :: "'a traits \<Rightarrow> member \<Rightarrow> 'a block \<Rightarrow> nat \<Rightarrow> 'a
    \<Rightarrow> unit outcome \<times> 'a block \<times> event list" where
  "construct_at T k m i x =
     (if length m \<le> i then (Abort, m, [])
      else if throws T k x then (Threw, m, [Call k])
      else (Returned (), m[i := Some x], [Call k]))"

text \<open>
  \<open>std::destroy_at(m + i)\<close> and \<open>std::destroy_n(m + i, n)\<close>: the destructor is called
  and the slot is raw memory afterwards. The operations below call them on live objects
  of the block whenever the first \<open>size_\<close> slots of the vector are live.
\<close>

definition destroy_at :: "'a block \<Rightarrow> nat \<Rightarrow> 'a block \<times> event list" where
  "destroy_at m i = (m[i := None], [Call Dtor])"

fun destroy_n :: "'a block \<Rightarrow> nat \<Rightarrow> nat \<Rightarrow> 'a block \<times> event list" where
  "destroy_n m i 0 = (m, [])"
| "destroy_n m i (Suc n) =
     (case destroy_at m i of (m1, e1) \<Rightarrow>
        (case destroy_n m1 (Suc i) n of (m2, e2) \<Rightarrow> (m2, e1 @ e2)))"

text \<open>
  \<open>std::uninitialized_copy_n(src + i, n, dst + j)\<close>: copy-constructs the objects one
  after the other; when a copy throws, the objects constructed so far are destroyed and
  the exception goes on.
\<close>

fun copy_each :: "'a traits \<Rightarrow> 'a list \<Rightarrow> 'a block \<Rightarrow> nat
    \<Rightarrow> unit outcome \<times> 'a block \<times> event list" where
  "copy_each T [] dst j = (Returned (), dst, [])"
| "copy_each T (x # xs) dst j =
     (case construct_at T CopyCtor dst j x of
        (Returned u, d1, e1) \<Rightarrow>
          (case copy_each T xs d1 (Suc j) of
             (Returned u', d2, e2) \<Rightarrow> (Returned (), d2, e1 @ e2)
           | (Threw, d2, e2) \<Rightarrow>
               (case destroy_at d2 j of (d3, e3) \<Rightarrow> (Threw, d3, e1 @ e2 @ e3))
           | (Abort, d2, e2) \<Rightarrow> (Abort, d2, e1 @ e2))
      | (Threw, d1, e1) \<Rightarrow> (Threw, d1, e1)
      | (Abort, d1, e1) \<Rightarrow> (Abort, d1, e1))"

definition uninitialized_copy_n :: "'a traits \<Rightarrow> 'a block \<Rightarrow> nat \<Rightarrow> nat \<Rightarrow> 'a block \<Rightarrow> nat
    \<Rightarrow> unit outcome \<times> 'a block \<times> event list" where
  "uninitialized_copy_n T src i n dst j =
     (if live src i n \<and> j + n \<le> length dst then copy_each T (objects src i n) dst j
      else (Abort, dst, []))"

text \<open>
  \<open>std::uninitialized_move_n(src + i, n, dst + j)\<close>: as above with the move constructor;
  a source that was moved from is left in its moved-from state, also when a later move
  throws. The source block is returned with the destination.
\<close>

fun move_each :: "'a traits \<Rightarrow> 'a list \<Rightarrow> 'a block \<Rightarrow> nat \<Rightarrow> 'a block \<Rightarrow> nat
    \<Rightarrow> unit outcome \<times> 'a block \<times> 'a block \<times> event list" where
  "move_each T [] src i dst j = (Returned (), src, dst, [])"
| "move_each T (x # xs) src i dst j =
     (case construct_at T MoveCtor dst j x of
        (Returned u, d1, e1) \<Rightarrow>
          (case move_each T xs (src[i := Some (moved_from T x)]) (Suc i) d1 (Suc j) of
             (Returned u', s2, d2, e2) \<Rightarrow> (Returned (), s2, d2, e1 @ e2)
           | (Threw, s2, d2, e2) \<Rightarrow>
               (case destroy_at d2 j of (d3, e3) \<Rightarrow> (Threw, s2, d3, e1 @ e2 @ e3))
           | (Abort, s2, d2, e2) \<Rightarrow> (Abort, s2, d2, e1 @ e2))
      | (Threw, d1, e1) \<Rightarrow> (Threw, src, d1, e1)
      | (Abort, d1, e1) \<Rightarrow> (Abort, src, d1, e1))"

definition uninitialized_move_n :: "'a traits \<Rightarrow> 'a block \<Rightarrow> nat \<Rightarrow> nat \<Rightarrow> 'a block \<Rightarrow> nat
    \<Rightarrow> unit outcome \<times> 'a block \<times> 'a block \<times> event list" where
  "uninitialized_move_n T src i n dst j =
     (if live src i n \<and> j + n \<le> length dst then move_each T (objects src i n) src i dst j
      else (Abort, src, dst, []))"

text \<open>
  The transfer of existing elements to new storage, written out in the source at each of
  its five uses:
  \<^verbatim>\<open>if constexpr (std::is_nothrow_move_constructible_v<T> || !std::is_copy_constructible_v<T>)
      std::uninitialized_move_n(...); else std::uninitialized_copy_n(...);\<close>
\<close>

definition transfer_n :: "'a traits \<Rightarrow> 'a block \<Rightarrow> nat \<Rightarrow> nat \<Rightarrow> 'a block \<Rightarrow> nat
    \<Rightarrow> unit outcome \<times> 'a block \<times> 'a block \<times> event list" where
  "transfer_n T src i n dst j =
     (if nothrow_move_constructible T \<or> \<not> copy_constructible T
      then uninitialized_move_n T src i n dst j
      else (case uninitialized_copy_n T src i n dst j of (r, d, e) \<Rightarrow> (r, src, d, e)))"

text \<open>The constructor this rule selects for the element type.\<close>

definition transfer_member :: "'a traits \<Rightarrow> member" where
  "transfer_member T = (if nothrow_move_constructible T \<or> \<not> copy_constructible T then MoveCtor else CopyCtor)"



text \<open>
  An assignment calls \<open>operator=\<close> on its target, which must be an object: assigning to
  a slot outside the block, or to a slot that holds no object, has no defined result.
  \<open>Erase\<close> assigns to the slot whose object it has just destroyed. For a type with a
  trivial destructor \<open>std::destroy_at\<close> leaves the storage as it was and the assignment
  stores the value as it would in a live object; the model follows the values there. For
  any other type the assignment works on what the destructor left behind (a type that owns
  memory releases it a second time).
\<close>

definition assignable :: "'a traits \<Rightarrow> 'a block \<Rightarrow> nat \<Rightarrow> bool" where
  "assignable T m d =
     (d < length m \<and> (case m ! d of Some y \<Rightarrow> True | None \<Rightarrow> trivially_destructible T))"



text \<open>
  Moves inside one block. \<open>move_assign T m i d\<close> is \<open>m[d] = std::move(m[i])\<close>;
  \<open>move_construct T m i d\<close> is \<open>new (m + d) T(std::move(m[i]))\<close>; \<open>move_assign_value\<close>
  assigns from an object outside the block. Reading a slot that holds no object, or one
  outside the block, has no defined result.
\<close>

definition move_assign :: "'a traits \<Rightarrow> 'a block \<Rightarrow> nat \<Rightarrow> nat
    \<Rightarrow> unit outcome \<times> 'a block \<times> event list" where
  "move_assign T m i d =
     (if i < length m \<and> assignable T m d then
        (case m ! i of
           None \<Rightarrow> (Abort, m, [])
         | Some x \<Rightarrow>
             if throws T MoveAssign x then (Threw, m, [Call MoveAssign])
             else (Returned (), m[d := Some x, i := Some (moved_from T x)], [Call MoveAssign]))
      else (Abort, m, []))"

definition move_construct :: "'a traits \<Rightarrow> 'a block \<Rightarrow> nat \<Rightarrow> nat
    \<Rightarrow> unit outcome \<times> 'a block \<times> event list" where
  "move_construct T m i d =
     (if i < length m \<and> d < length m then
        (case m ! i of
           None \<Rightarrow> (Abort, m, [])
         | Some x \<Rightarrow>
             if throws T MoveCtor x then (Threw, m, [Call MoveCtor])
             else (Returned (), m[d := Some x, i := Some (moved_from T x)], [Call MoveCtor]))
      else (Abort, m, []))"

definition move_assign_value :: "'a traits \<Rightarrow> 'a \<Rightarrow> 'a block \<Rightarrow> nat
    \<Rightarrow> unit outcome \<times> 'a block \<times> event list" where
  "move_assign_value T x m d =
     (if assignable T m d then
        (if throws T MoveAssign x then (Threw, m, [Call MoveAssign])
         else (Returned (), m[d := Some x], [Call MoveAssign]))
      else (Abort, m, []))"

text \<open>
  \<open>std::move(m + first, m + first + n, m + d)\<close>: move-assigns \<open>n\<close> objects, lowest
  offset first.
\<close>

fun move_n :: "'a traits \<Rightarrow> 'a block \<Rightarrow> nat \<Rightarrow> nat \<Rightarrow> nat
    \<Rightarrow> unit outcome \<times> 'a block \<times> event list" where
  "move_n T m first 0 d = (Returned (), m, [])"
| "move_n T m first (Suc n) d =
     (case move_assign T m first d of
        (Returned u, m1, e1) \<Rightarrow>
          (case move_n T m1 (Suc first) n (Suc d) of (r, m2, e2) \<Rightarrow> (r, m2, e1 @ e2))
      | (Threw, m1, e1) \<Rightarrow> (Threw, m1, e1)
      | (Abort, m1, e1) \<Rightarrow> (Abort, m1, e1))"

text \<open>
  \<open>std::move_backward(m + first, m + first + n, m + d_last)\<close>: move-assigns \<open>n\<close>
  objects, highest offset first, the last of them to \<open>d_last - 1\<close>.
\<close>

fun move_backward_n :: "'a traits \<Rightarrow> 'a block \<Rightarrow> nat \<Rightarrow> nat \<Rightarrow> nat
    \<Rightarrow> unit outcome \<times> 'a block \<times> event list" where
  "move_backward_n T m first 0 d_last = (Returned (), m, [])"
| "move_backward_n T m first (Suc n) d_last =
     (if d_last = 0 then (Abort, m, [])
      else
        (case move_assign T m (first + n) (d_last - 1) of
           (Returned u, m1, e1) \<Rightarrow>
             (case move_backward_n T m1 first n (d_last - 1) of (r, m2, e2) \<Rightarrow> (r, m2, e1 @ e2))
         | (Threw, m1, e1) \<Rightarrow> (Threw, m1, e1)
         | (Abort, m1, e1) \<Rightarrow> (Abort, m1, e1)))"

section \<open>Vector\<close>

text \<open>
  The two data members of \<open>Vector<T>\<close>. Iterators are pointers into the block; they are
  modelled by their offset from \<open>begin()\<close>, so \<open>begin()\<close> is \<open>0\<close> and \<open>end()\<close> is
  \<open>size_\<close>. \<open>slots v\<close> is the block \<open>data_.GetAddress()\<close> points to.
\<close>

record 'a Vector =
  data' :: "'a RawMemory"
  size' :: nat

abbreviation slots :: "'a Vector \<Rightarrow> 'a block" where
  "slots v \<equiv> buffer' (data' v)"

definition Vector_default :: "'a Vector" where
  "Vector_default = \<lparr>data' = RawMemory_default, size' = 0\<rparr>"

definition Size :: "'a Vector \<Rightarrow> nat" where
  "Size v = size' v"

definition Capacity :: "'a Vector \<Rightarrow> nat" where
  "Capacity v = RawMemory_Capacity (data' v)"

definition cbegin :: "'a Vector \<Rightarrow> nat" where
  "cbegin v = 0"

definition cend :: "'a Vector \<Rightarrow> nat" where
  "cend v = size' v"

text \<open>
  \<open>operator[]\<close>: \<open>assert(index < size_)\<close>, then \<open>data_[index]\<close>, which asserts
  \<open>index < capacity_\<close>, then the object in the slot.
\<close>

definition at_index :: "'a Vector \<Rightarrow> nat \<Rightarrow> 'a outcome" where
  "at_index v index =
     (if index < size' v \<and> index < capacity' (data' v) \<and> index < length (slots v) then
        (case slots v ! index of None \<Rightarrow> Abort | Some x \<Rightarrow> Returned x)
      else Abort)"

text \<open>\<open>~Vector()\<close>: destroys the \<open>size_\<close> elements, then the block is released.\<close>

definition Vector_dtor :: "'a Vector \<Rightarrow> event list" where
  "Vector_dtor v = (case destroy_n (slots v) 0 (size' v) of (m, e) \<Rightarrow> e @ Deallocate m)"


text \<open>
  \<open>Vector(Vector&& other)\<close>: the new vector takes the block and the size, \<open>other\<close> is
  left with no block and size \<open>0\<close>. The result is the pair (new vector, \<open>other\<close>).
\<close>

definition Vector_move :: "'a Vector \<Rightarrow> 'a Vector \<times> 'a Vector" where
  "Vector_move other =
     (case RawMemory_move (data' other) of
        (m, m_other) \<Rightarrow> (\<lparr>data' = m, size' = size' other\<rparr>, \<lparr>data' = m_other, size' = 0\<rparr>))"

text \<open>
  \<open>Swap\<close> and the two assignment operators compare the addresses of their operands, so
  they are modelled on a store of vector objects, addressed by natural numbers.
\<close>

type_synonym 'a store = "nat \<Rightarrow> 'a Vector"

definition Swap :: "'a store \<Rightarrow> nat \<Rightarrow> nat \<Rightarrow> 'a store" where
  "Swap s this other =
     (if this \<noteq> other then
        (case RawMemory_Swap (data' (s this)) (data' (s other)) of
           (m_this, m_other) \<Rightarrow>
             s(this := \<lparr>data' = m_this, size' = size' (s other)\<rparr>,
               other := \<lparr>data' = m_other, size' = size' (s this)\<rparr>))
      else s)"

definition move_assignment :: "'a store \<Rightarrow> nat \<Rightarrow> nat \<Rightarrow> 'a store" where
  "move_assignment s this rhs = (if this \<noteq> rhs then Swap s this rhs else s)"


text \<open>
  \<open>Reserve(new_capacity)\<close>. After \<open>data_.Swap(new_data)\<close> the vector holds the new
  \<open>RawMemory\<close>, with \<open>capacity_ = new_capacity\<close>, and the local \<open>new_data\<close> holds the old
  block, which is released when the function returns; when the transfer throws, the local
  still holds the new block.
\<close>

definition Reserve :: "'a traits \<Rightarrow> 'a Vector \<Rightarrow> nat \<Rightarrow> unit outcome \<times> 'a Vector \<times> event list" where
  "Reserve T v new_capacity =
     (if new_capacity \<le> Capacity v then (Returned (), v, [])
      else
        (case transfer_n T (slots v) 0 (size' v) (buffer' (RawMemory_new T new_capacity)) 0 of
           (Returned u, d1, nd1, e1) \<Rightarrow>
             (case destroy_n d1 0 (size' v) of
                (d2, e2) \<Rightarrow>
                  (Returned (), v\<lparr>data' := (RawMemory_new T new_capacity)\<lparr>buffer' := nd1\<rparr>\<rparr>,
                   e1 @ e2 @ Deallocate d2))
         | (Threw, d1, nd1, e1) \<Rightarrow>
             (Threw, v\<lparr>data' := (data' v)\<lparr>buffer' := d1\<rparr>\<rparr>, e1 @ Deallocate nd1)
         | (Abort, d1, nd1, e1) \<Rightarrow> (Abort, v, e1)))"


text \<open>
  The capacity \<open>PushBack\<close>, \<open>EmplaceBack\<close> and \<open>Emplace\<close> ask for when there is no room:
  \<open>size_ == 0 ? 1 : size_ * 2\<close>, the product in \<open>size_t\<close>.
\<close>

definition grown :: "nat \<Rightarrow> nat" where
  "grown n = (if n = 0 then 1 else (n * 2) mod size_t_bound)"

text \<open>
  \<open>PushBack(value)\<close> and \<open>EmplaceBack(args...)\<close>. The new element is built first, by the
  constructor the argument selects; neither function has a handler, so when the transfer
  throws, the new block is released with the new element alive. \<open>++size_\<close> comes after an
  object was built at offset \<open>size_\<close> of a block and does not wrap. The two bodies are the
  same but for the reference \<open>EmplaceBack\<close> returns, modelled by the value of the new last
  element.
\<close>

definition PushBack :: "'a traits \<Rightarrow> 'a Vector \<Rightarrow> 'a argument
    \<Rightarrow> unit outcome \<times> 'a Vector \<times> event list" where
  "PushBack T v a =
     (if size' v \<ge> Capacity v then
        (case construct_at T (constructor_of a) (buffer' (RawMemory_new T (grown (size' v))))
                (size' v) (value_of a) of
           (Returned u, nd1, e1) \<Rightarrow>
             (case transfer_n T (slots v) 0 (size' v) nd1 0 of
                (Returned u', d2, nd2, e2) \<Rightarrow>
                  (case destroy_n d2 0 (size' v) of
                     (d3, e3) \<Rightarrow>
                       (Returned (),
                        \<lparr>data' = (RawMemory_new T (grown (size' v)))\<lparr>buffer' := nd2\<rparr>,
                         size' = size' v + 1\<rparr>,
                        e1 @ e2 @ e3 @ Deallocate d3))
              | (Threw, d2, nd2, e2) \<Rightarrow>
                  (Threw, v\<lparr>data' := (data' v)\<lparr>buffer' := d2\<rparr>\<rparr>, e1 @ e2 @ Deallocate nd2)
              | (Abort, d2, nd2, e2) \<Rightarrow> (Abort, v, e1 @ e2))
         | (Threw, nd1, e1) \<Rightarrow> (Threw, v, e1 @ Deallocate nd1)
         | (Abort, nd1, e1) \<Rightarrow> (Abort, v, e1))
      else
        (case construct_at T (constructor_of a) (slots v) (size' v) (value_of a) of
           (Returned u, d1, e1) \<Rightarrow>
             (Returned (), \<lparr>data' = (data' v)\<lparr>buffer' := d1\<rparr>, size' = size' v + 1\<rparr>, e1)
         | (Threw, d1, e1) \<Rightarrow> (Threw, v, e1)
         | (Abort, d1, e1) \<Rightarrow> (Abort, v, e1)))"

definition EmplaceBack :: "'a traits \<Rightarrow> 'a Vector \<Rightarrow> 'a argument
    \<Rightarrow> 'a outcome \<times> 'a Vector \<times> event list" where
  "EmplaceBack T v a =
     (if size' v \<ge> Capacity v then
        (case construct_at T (constructor_of a) (buffer' (RawMemory_new T (grown (size' v))))
                (size' v) (value_of a) of
           (Returned u, nd1, e1) \<Rightarrow>
             (case transfer_n T (slots v) 0 (size' v) nd1 0 of
                (Returned u', d2, nd2, e2) \<Rightarrow>
                  (case destroy_n d2 0 (size' v) of
                     (d3, e3) \<Rightarrow>
                       (Returned (value_of a),
                        \<lparr>data' = (RawMemory_new T (grown (size' v)))\<lparr>buffer' := nd2\<rparr>,
                         size' = size' v + 1\<rparr>,
                        e1 @ e2 @ e3 @ Deallocate d3))
              | (Threw, d2, nd2, e2) \<Rightarrow>
                  (Threw, v\<lparr>data' := (data' v)\<lparr>buffer' := d2\<rparr>\<rparr>, e1 @ e2 @ Deallocate nd2)
              | (Abort, d2, nd2, e2) \<Rightarrow> (Abort, v, e1 @ e2))
         | (Threw, nd1, e1) \<Rightarrow> (Threw, v, e1 @ Deallocate nd1)
         | (Abort, nd1, e1) \<Rightarrow> (Abort, v, e1))
      else
        (case construct_at T (constructor_of a) (slots v) (size' v) (value_of a) of
           (Returned u, d1, e1) \<Rightarrow>
             (Returned (value_of a), \<lparr>data' = (data' v)\<lparr>buffer' := d1\<rparr>, size' = size' v + 1\<rparr>, e1)
         | (Threw, d1, e1) \<Rightarrow> (Threw, v, e1)
         | (Abort, d1, e1) \<Rightarrow> (Abort, v, e1)))"

text \<open>\<open>PopBack()\<close>: \<open>assert(size_ > 0)\<close>, then the last element is destroyed.\<close>

definition PopBack :: "'a Vector \<Rightarrow> unit outcome \<times> 'a Vector \<times> event list" where
  "PopBack v =
     (if size' v > 0 then
        (case destroy_at (slots v) (size' v - 1) of
           (d1, e1) \<Rightarrow>
             (Returned (), \<lparr>data' = (data' v)\<lparr>buffer' := d1\<rparr>, size' = size' v - 1\<rparr>, e1))
      else (Abort, v, []))"

text \<open>
  \<open>Emplace(pos, args...)\<close> with \<open>pos\<close> at offset \<open>dst\<close>; it returns the offset of the
  new element. The two \<open>catch (...)\<close> blocks of the reallocating branch are the \<open>Threw\<close>
  cases of the two transfers. In the branch that shifts in place, the temporary \<open>copy\<close>
  is built by the constructor the argument selects, assigned from by move, and destroyed
  when its block is left, normally or by an exception.
\<close>

definition Emplace :: "'a traits \<Rightarrow> 'a Vector \<Rightarrow> nat \<Rightarrow> 'a argument
    \<Rightarrow> nat outcome \<times> 'a Vector \<times> event list" where
  "Emplace T v dst a =
     (if \<not> (cbegin v \<le> dst \<and> dst \<le> cend v) then (Abort, v, [])
      else if size' v \<ge> Capacity v then
        (case construct_at T (constructor_of a) (buffer' (RawMemory_new T (grown (size' v))))
                dst (value_of a) of
           (Returned u, nd1, e1) \<Rightarrow>
             (case transfer_n T (slots v) 0 dst nd1 0 of
                (Returned u', d2, nd2, e2) \<Rightarrow>
                  (case transfer_n T d2 dst (size' v - dst) nd2 (dst + 1) of
                     (Returned u'', d3, nd3, e3) \<Rightarrow>
                       (case destroy_n d3 0 (size' v) of
                          (d4, e4) \<Rightarrow>
                            (Returned dst,
                             \<lparr>data' = (RawMemory_new T (grown (size' v)))\<lparr>buffer' := nd3\<rparr>,
                              size' = size' v + 1\<rparr>,
                             e1 @ e2 @ e3 @ e4 @ Deallocate d4))
                   | (Threw, d3, nd3, e3) \<Rightarrow>
                       (case destroy_n nd3 0 dst of
                          (nd4, e4) \<Rightarrow>
                            (Threw, v\<lparr>data' := (data' v)\<lparr>buffer' := d3\<rparr>\<rparr>,
                             e1 @ e2 @ e3 @ e4 @ Deallocate nd4))
                   | (Abort, d3, nd3, e3) \<Rightarrow> (Abort, v, e1 @ e2 @ e3))
              | (Threw, d2, nd2, e2) \<Rightarrow>
                  (case destroy_at nd2 dst of
                     (nd3, e3) \<Rightarrow>
                       (Threw, v\<lparr>data' := (data' v)\<lparr>buffer' := d2\<rparr>\<rparr>,
                        e1 @ e2 @ e3 @ Deallocate nd3))
              | (Abort, d2, nd2, e2) \<Rightarrow> (Abort, v, e1 @ e2))
         | (Threw, nd1, e1) \<Rightarrow> (Threw, v, e1 @ Deallocate nd1)
         | (Abort, nd1, e1) \<Rightarrow> (Abort, v, e1))
      else if dst \<noteq> cend v then
        (if throws T (constructor_of a) (value_of a) then (Threw, v, [Call (constructor_of a)])
         else
           (case move_construct T (slots v) (size' v - 1) (size' v) of
              (Returned u, d1, e1) \<Rightarrow>
                (case move_backward_n T d1 dst (size' v - 1 - dst) (size' v) of
                   (Returned u', d2, e2) \<Rightarrow>
                     (case move_assign_value T (value_of a) d2 dst of
                        (Returned u'', d3, e3) \<Rightarrow>
                          (Returned dst,
                           \<lparr>data' = (data' v)\<lparr>buffer' := d3\<rparr>, size' = size' v + 1\<rparr>,
                           Call (constructor_of a) # e1 @ e2 @ e3 @ [Call Dtor])
                      | (Threw, d3, e3) \<Rightarrow>
                          (Threw, v\<lparr>data' := (data' v)\<lparr>buffer' := d3\<rparr>\<rparr>,
                           Call (constructor_of a) # e1 @ e2 @ e3 @ [Call Dtor])
                      | (Abort, d3, e3) \<Rightarrow> (Abort, v, Call (constructor_of a) # e1 @ e2 @ e3))
                 | (Threw, d2, e2) \<Rightarrow>
                     (Threw, v\<lparr>data' := (data' v)\<lparr>buffer' := d2\<rparr>\<rparr>,
                      Call (constructor_of a) # e1 @ e2 @ [Call Dtor])
                 | (Abort, d2, e2) \<Rightarrow> (Abort, v, Call (constructor_of a) # e1 @ e2))
            | (Threw, d1, e1) \<Rightarrow>
                (Threw, v\<lparr>data' := (data' v)\<lparr>buffer' := d1\<rparr>\<rparr>,
                 Call (constructor_of a) # e1 @ [Call Dtor])
            | (Abort, d1, e1) \<Rightarrow> (Abort, v, Call (constructor_of a) # e1)))
      else
        (case construct_at T (constructor_of a) (slots v) (size' v) (value_of a) of
           (Returned u, d1, e1) \<Rightarrow>
             (Returned dst, \<lparr>data' = (data' v)\<lparr>buffer' := d1\<rparr>, size' = size' v + 1\<rparr>, e1)
         | (Threw, d1, e1) \<Rightarrow> (Threw, v, e1)
         | (Abort, d1, e1) \<Rightarrow> (Abort, v, e1)))"

text \<open>
  The two overloads of \<open>Insert\<close>: \<open>Insert(pos, const T& value)\<close> passes an lvalue to
  \<open>Emplace\<close>, \<open>Insert(pos, T&& value)\<close> an rvalue.
\<close>

definition Insert :: "'a traits \<Rightarrow> 'a Vector \<Rightarrow> nat \<Rightarrow> 'a
    \<Rightarrow> nat outcome \<times> 'a Vector \<times> event list" where
  "Insert T v pos value' = Emplace T v pos (Lvalue value')"

definition Insert_rvalue :: "'a traits \<Rightarrow> 'a Vector \<Rightarrow> nat \<Rightarrow> 'a
    \<Rightarrow> nat outcome \<times> 'a Vector \<times> event list" where
  "Insert_rvalue T v pos value' = Emplace T v pos (Rvalue value')"

text \<open>
  \<open>Erase(pos)\<close> with \<open>pos\<close> at offset \<open>dst\<close>. The source has no \<open>assert\<close>; a position
  outside \<open>[begin(), end())\<close> violates its precondition. The element at \<open>dst\<close> is
  destroyed first; \<open>std::move\<close> then assigns to that slot.
\<close>

definition Erase :: "'a traits \<Rightarrow> 'a Vector \<Rightarrow> nat \<Rightarrow> nat outcome \<times> 'a Vector \<times> event list" where
  "Erase T v dst =
     (if \<not> dst < size' v then (Abort, v, [])
      else
        (case destroy_at (slots v) dst of
           (d1, e1) \<Rightarrow>
             (case move_n T d1 (dst + 1) (size' v - (dst + 1)) dst of
                (Returned u, d2, e2) \<Rightarrow>
                  (Returned dst, \<lparr>data' = (data' v)\<lparr>buffer' := d2\<rparr>, size' = size' v - 1\<rparr>,
                   e1 @ e2)
              | (Threw, d2, e2) \<Rightarrow> (Threw, v\<lparr>data' := (data' v)\<lparr>buffer' := d2\<rparr>\<rparr>, e1 @ e2)
              | (Abort, d2, e2) \<Rightarrow> (Abort, v, e1 @ e2))))"

section \<open>The class invariant and the contents of a vector\<close>

text \<open>
  \<open>valid v\<close>: \<open>capacity_\<close> is the number of slots of the block, \<open>size_\<close> does not exceed
  it and the first \<open>size_\<close> slots hold live objects. \<open>invariant v\<close> is the invariant of
  the specification: moreover the slots from \<open>size_\<close> on are raw memory. \<open>elements v\<close> is
  the sequence of element values.
\<close>

definition valid :: "'a Vector \<Rightarrow> bool" where
  "valid v = (capacity' (data' v) = length (slots v) \<and> live (slots v) 0 (size' v))"

definition invariant :: "'a Vector \<Rightarrow> bool" where
  "invariant v = (valid v \<and> list_all (\<lambda>s. s = None) (drop (size' v) (slots v)))"

definition elements :: "'a Vector \<Rightarrow> 'a list" where
  "elements v = objects (slots v) 0 (size' v)"

section \<open>Sequences of appends\<close>

text \<open>
  A caller appends with \<open>PushBack\<close> or \<open>EmplaceBack\<close>; \<open>append_step\<close> gives whether the
  call returned normally and the vector after it, \<open>append_steps\<close> the same after each call of
  a sequence (a caller that catches an exception goes on with the vector as the call left it).
  \<open>appended\<close> is the argument of a call. \<open>doubled v\<close>: the vector is empty with no storage, or its capacity is the least power of two
  that holds its elements.
\<close>

datatype 'a append_call = Push "'a argument" | Emplaced "'a argument"

fun append_step :: "'a traits \<Rightarrow> 'a Vector \<Rightarrow> 'a append_call \<Rightarrow> bool \<times> 'a Vector" where
  "append_step T v (Push a) = (case PushBack T v a of (r, v', e) \<Rightarrow> (r = Returned (), v'))"
| "append_step T v (Emplaced a) =
     (case EmplaceBack T v a of (r, v', e) \<Rightarrow> (r = Returned (value_of a), v'))"

fun append_steps :: "'a traits \<Rightarrow> 'a Vector \<Rightarrow> 'a append_call list \<Rightarrow> (bool \<times> 'a Vector) list" where
  "append_steps T v [] = []"
| "append_steps T v (a # as) = (case append_step T v a of (ok, v') \<Rightarrow> (ok, v') # append_steps T v' as)"

fun appended :: "'a append_call \<Rightarrow> 'a argument" where
  "appended (Push a) = a"
| "appended (Emplaced a) = a"

text \<open>The vector after the whole sequence.\<close>

fun after_appends :: "'a traits \<Rightarrow> 'a Vector \<Rightarrow> 'a append_call list \<Rightarrow> 'a Vector" where
  "after_appends T v [] = v"
| "after_appends T v (a # as) = after_appends T (snd (append_step T v a)) as"

definition doubled :: "'a Vector \<Rightarrow> bool" where
  "doubled v = ((size' v = 0 \<and> Capacity v = 0) \<or>
     (0 < size' v \<and> size' v \<le> Capacity v \<and> (\<exists>k. Capacity v = 2 ^ k \<and> 2 ^ k < 2 * size' v)))"

section \<open>Example element types and vectors\<close>

text \<open>
  Three element types over the natural numbers, for the concrete instances below.
  \<open>plain\<close> behaves like \<open>int\<close>: four bytes, a trivial destructor, nothing throws and a
  moved-from object keeps its value. \<open>text_like\<close> behaves like \<open>std::string\<close>: its
  destructor is not trivial, its move constructor is \<open>noexcept\<close> and leaves the source
  empty (value \<open>0\<close>). \<open>fragile\<close> is copy-constructible, its move constructor is not
  \<open>noexcept\<close>, and copying the value \<open>7\<close> throws.
\<close>

definition plain :: "nat traits" where
  "plain = \<lparr>size_of = 4, nothrow_move_constructible = True, copy_constructible = True,
     trivially_destructible = True,
     throws = (\<lambda>k x. False), moved_from = (\<lambda>x. x), value_init = 0\<rparr>"

definition text_like :: "nat traits" where
  "text_like = \<lparr>size_of = 32, nothrow_move_constructible = True, copy_constructible = True,
     trivially_destructible = False,
     throws = (\<lambda>k x. False), moved_from = (\<lambda>x. 0), value_init = 0\<rparr>"

definition fragile :: "nat traits" where
  "fragile = \<lparr>size_of = 8, nothrow_move_constructible = False, copy_constructible = True,
     trivially_destructible = False,
     throws = (\<lambda>k x. k = CopyCtor \<and> x = 7), moved_from = (\<lambda>x. 0), value_init = 0\<rparr>"

text \<open>
  \<open>vec b n\<close> is the vector of size \<open>n\<close> over the block \<open>b\<close>, with \<open>capacity_\<close> the
  number of slots of \<open>b\<close>.
\<close>

definition vec :: "'a block \<Rightarrow> nat \<Rightarrow> 'a Vector" where
  "vec b n = \<lparr>data' = \<lparr>buffer' = b, capacity' = length b\<rparr>, size' = n\<rparr>"

text \<open>
  Two stores for the concrete instances of the assignment operators: a vector \<open>[1]\<close> at
  address \<open>0\<close> and a vector of two elements at address \<open>1\<close>; every other address holds an
  empty vector.
\<close>

definition two_vectors :: "nat store" where
  "two_vectors = (\<lambda>a. Vector_default)(0 := vec [Some 1] 1, 1 := vec [Some 2, Some 3] 2)"


section \<open>The transfer rule as a property of a call trace\<close>

text \<open>
  \<open>transferred_by_rule T n returned e\<close>: in the trace \<open>e\<close> of an operation that has \<open>n\<close>
  elements to transfer, the constructor the rule excludes for \<open>T\<close> is never called, and
  when the operation returned, the constructor the rule selects was called \<open>n\<close> times.
\<close>

definition transferred_by_rule :: "'a traits \<Rightarrow> nat \<Rightarrow> bool \<Rightarrow> event list \<Rightarrow> bool" where
  "transferred_by_rule T n returned e =
     (if nothrow_move_constructible T \<or> \<not> copy_constructible T
      then count_list e (Call CopyCtor) = 0 \<and> (returned \<longrightarrow> count_list e (Call MoveCtor) = n)
      else count_list e (Call MoveCtor) = 0 \<and> (returned \<longrightarrow> count_list e (Call CopyCtor) = n))"

text \<open>\<open>other_calls e\<close>: the trace holds no call of the copy or the move constructor.\<close>

definition other_calls :: "event list \<Rightarrow> bool" where
  "other_calls e = (count_list e (Call CopyCtor) = 0 \<and> count_list e (Call MoveCtor) = 0)"

section \<open>Block lengths\<close>

lemma construct_at_length:
  "construct_at T k m i x = (r, m', e) \<Longrightarrow> length m' = length m"
  by (auto simp: construct_at_def split: if_splits)


lemma destroy_n_trace: "destroy_n m i n = (m', e) \<Longrightarrow> e = replicate n (Call Dtor)"
  by (induction n arbitrary: m i m' e) (auto simp: destroy_at_def split: prod.splits)

lemma copy_each_length: "copy_each T xs dst j = (r, d', e) \<Longrightarrow> length d' = length dst"
  by (induction xs arbitrary: dst j r d' e)
     (fastforce simp: construct_at_def destroy_at_def split: prod.splits outcome.splits if_splits)+

lemma move_each_length:
  "move_each T xs src i dst j = (r, s', d', e) \<Longrightarrow> length s' = length src \<and> length d' = length dst"
  by (induction xs arbitrary: src i dst j r s' d' e)
     (fastforce simp: construct_at_def destroy_at_def split: prod.splits outcome.splits if_splits)+

lemma transfer_n_length:
  "transfer_n T src i n dst j = (r, s', d', e) \<Longrightarrow> length s' = length src \<and> length d' = length dst"
  unfolding transfer_n_def uninitialized_move_n_def uninitialized_copy_n_def
  by (auto split: if_splits prod.splits dest: copy_each_length move_each_length)

section \<open>The standard algorithms when they return\<close>

lemma count_list_replicate: "count_list (replicate n x) y = (if x = y then n else 0)"
  by (induction n) auto

lemma live_objects: "live m i n \<Longrightarrow> map Some (objects m i n) = take n (drop i m)"
  unfolding live_def objects_def
  by (auto simp: list_all_iff intro!: map_idI)

lemma objects_length: "i + n \<le> length m \<Longrightarrow> length (objects m i n) = n"
  by (simp add: objects_def)

lemma take_Suc_update: "j < length m \<Longrightarrow> take (Suc j) (m[j := y]) = take j m @ [y]"
  by (simp add: take_Suc_conv_app_nth)

lemma copy_each_Returned:
  "copy_each T xs dst j = (Returned u, d', e) \<Longrightarrow> j + length xs \<le> length dst \<Longrightarrow>
     d' = take j dst @ map Some xs @ drop (j + length xs) dst \<and>
     e = replicate (length xs) (Call CopyCtor)"
proof (induction xs arbitrary: dst j d' e u)
  case Nil
  then show ?case by simp
next
  case (Cons x xs)
  from Cons.prems have j: "j < length dst" by simp
  from Cons.prems(1) j obtain e2 where
    step: "copy_each T xs (dst[j := Some x]) (Suc j) = (Returned (), d', e2)"
    and e: "e = Call CopyCtor # e2"
    by (auto simp: construct_at_def split: if_splits prod.splits outcome.splits)
  from Cons.IH[OF step] Cons.prems(2)
  have "d' = take (Suc j) (dst[j := Some x]) @ map Some xs @ drop (Suc j + length xs) (dst[j := Some x])"
    and "e2 = replicate (length xs) (Call CopyCtor)"
    by simp_all
  then show ?case using e j by (simp add: take_Suc_update)
qed

lemma move_each_Returned:
  "move_each T xs src i dst j = (Returned u, s', d', e) \<Longrightarrow> j + length xs \<le> length dst \<Longrightarrow>
     i + length xs \<le> length src \<Longrightarrow>
     d' = take j dst @ map Some xs @ drop (j + length xs) dst \<and>
     s' = take i src @ map (\<lambda>x. Some (moved_from T x)) xs @ drop (i + length xs) src \<and>
     e = replicate (length xs) (Call MoveCtor)"
proof (induction xs arbitrary: src i dst j s' d' e u)
  case Nil
  then show ?case by simp
next
  case (Cons x xs)
  from Cons.prems have j: "j < length dst" and i: "i < length src" by simp_all
  from Cons.prems(1) j obtain e2 where
    step: "move_each T xs (src[i := Some (moved_from T x)]) (Suc i) (dst[j := Some x]) (Suc j) =
             (Returned (), s', d', e2)"
    and e: "e = Call MoveCtor # e2"
    by (auto simp: construct_at_def split: if_splits prod.splits outcome.splits)
  from Cons.IH[OF step] Cons.prems(2,3)
  have "d' = take (Suc j) (dst[j := Some x]) @ map Some xs @ drop (Suc j + length xs) (dst[j := Some x])"
    and "s' = take (Suc i) (src[i := Some (moved_from T x)]) @ map (\<lambda>x. Some (moved_from T x)) xs @
              drop (Suc i + length xs) (src[i := Some (moved_from T x)])"
    and "e2 = replicate (length xs) (Call MoveCtor)"
    by simp_all
  then show ?case using e j i by (simp add: take_Suc_update)
qed

lemma copy_each_events:
  "copy_each T xs dst j = (r, d', e) \<Longrightarrow> set e \<subseteq> {Call CopyCtor, Call Dtor}"
  by (induction xs arbitrary: dst j r d' e)
     (fastforce simp: construct_at_def destroy_at_def split: prod.splits outcome.splits if_splits)+

lemma move_each_events:
  "move_each T xs src i dst j = (r, s', d', e) \<Longrightarrow> set e \<subseteq> {Call MoveCtor, Call Dtor}"
  by (induction xs arbitrary: src i dst j r s' d' e)
     (fastforce simp: construct_at_def destroy_at_def split: prod.splits outcome.splits if_splits)+

lemma transfer_n_events:
  "transfer_n T src i n dst j = (r, s', d', e) \<Longrightarrow> set e \<subseteq> {Call (transfer_member T), Call Dtor}"
  unfolding transfer_n_def uninitialized_move_n_def uninitialized_copy_n_def transfer_member_def
  by (auto split: if_splits prod.splits dest!: copy_each_events move_each_events)

lemma live_take_drop:
  "live m i n \<Longrightarrow> list_all (\<lambda>s. s \<noteq> None) (take n (drop i m))"
  by (simp add: live_def)

lemma transfer_n_Returned:
  assumes "transfer_n T src i n dst j = (Returned u, s', d', e)"
  shows "live src i n \<and> j + n \<le> length dst \<and>
     d' = take j dst @ take n (drop i src) @ drop (j + n) dst \<and>
     take i s' = take i src \<and> drop (i + n) s' = drop (i + n) src \<and> length s' = length src \<and>
     e = replicate n (Call (transfer_member T))"
proof -
  from assms have pre: "live src i n" "j + n \<le> length dst"
    unfolding transfer_n_def uninitialized_move_n_def uninitialized_copy_n_def
    by (auto split: if_splits prod.splits)
  then have len: "length (objects src i n) = n" and i: "i + n \<le> length src"
    by (auto simp: live_def objects_def)
  note vals = live_objects[OF pre(1)]
  show ?thesis
  proof (cases "nothrow_move_constructible T \<or> \<not> copy_constructible T")
    case True
    with assms pre have "move_each T (objects src i n) src i dst j = (Returned u, s', d', e)"
      by (simp add: transfer_n_def uninitialized_move_n_def)
    from move_each_Returned[OF this] len pre i
    have "d' = take j dst @ map Some (objects src i n) @ drop (j + n) dst"
      and s': "s' = take i src @ map (\<lambda>x. Some (moved_from T x)) (objects src i n) @ drop (i + n) src"
      and "e = replicate n (Call MoveCtor)"
      by simp_all
    moreover from s' i len have "take i s' = take i src" "drop (i + n) s' = drop (i + n) src"
      "length s' = length src"
      by simp_all
    ultimately show ?thesis using pre vals True by (simp add: transfer_member_def)
  next
    case False
    with assms pre have c: "copy_each T (objects src i n) dst j = (Returned u, d', e)" and "s' = src"
      by (auto simp: transfer_n_def uninitialized_copy_n_def split: prod.splits)
    from copy_each_Returned[OF c] len pre
    have "d' = take j dst @ map Some (objects src i n) @ drop (j + n) dst"
      and "e = replicate n (Call CopyCtor)"
      by simp_all
    then show ?thesis using pre vals False \<open>s' = src\<close> by (simp add: transfer_member_def)
  qed
qed

section \<open>Blocks and sizes\<close>

lemma size_t_bound_pos: "0 < size_t_bound"
  by (simp add: size_t_bound_def)

lemma Allocate_raw: "Allocate T n = replicate (length (Allocate T n)) None"
  by (simp add: Allocate_def)

lemma Allocate_length_le: "length (Allocate T n) \<le> n"
proof (cases "size_of T = 0")
  case True
  then show ?thesis by (simp add: Allocate_def)
next
  case False
  have "(n * size_of T) mod size_t_bound div size_of T \<le> (n * size_of T) div size_of T"
    by (rule div_le_mono) simp
  with False show ?thesis by (simp add: Allocate_def)
qed

lemma Allocate_fits: "fits T n \<Longrightarrow> Allocate T n = replicate n None"
  by (simp add: Allocate_def fits_def)

lemma Allocate_bytes: "length (Allocate T n) * size_of T < size_t_bound"
proof (cases "n = 0")
  case True
  then show ?thesis by (simp add: Allocate_def size_t_bound_pos)
next
  case False
  have "(n * size_of T) mod size_t_bound div size_of T * size_of T \<le> (n * size_of T) mod size_t_bound"
    by simp
  also have "\<dots> < size_t_bound" by (simp add: size_t_bound_pos)
  finally show ?thesis using False by (simp add: Allocate_def)
qed

text \<open>A block that has a slot beyond half the slots asked for is the block asked for.\<close>

lemma Allocate_exact:
  assumes "n \<le> 2 * k" and "k < length (Allocate T n)"
  shows "length (Allocate T n) = n"
proof -
  let ?s = "size_of T" and ?L = "length (Allocate T n)"
  from assms(2) have n: "n \<noteq> 0" by (auto simp: Allocate_def split: if_splits)
  from assms(2) have s: "0 < ?s" by (cases "?s = 0") (auto simp: Allocate_def split: if_splits)
  have L: "?L = (n * ?s) mod size_t_bound div ?s" using n by (simp add: Allocate_def)
  show ?thesis
  proof (cases "n * ?s < size_t_bound")
    case True
    with L s show ?thesis by simp
  next
    case False
    define q where "q = (n * ?s) div size_t_bound"
    define r where "r = (n * ?s) mod size_t_bound"
    have split: "n * ?s = q * size_t_bound + r" by (simp add: q_def r_def)
    have r: "r < size_t_bound" by (simp add: r_def size_t_bound_pos)
    from False have "1 \<le> q" unfolding q_def
      by (metis One_nat_def Suc_leI div_greater_zero_iff not_less size_t_bound_pos)
    then have "size_t_bound \<le> q * size_t_bound" by simp
    with split r have "2 * r < n * ?s" by linarith
    moreover have "?L * ?s \<le> r" unfolding L r_def by simp
    ultimately have "2 * (?L * ?s) < n * ?s" by linarith
    then have "(2 * ?L) * ?s < n * ?s" by (simp add: mult.assoc)
    then have "2 * ?L < n" using s by simp
    with assms show ?thesis by linarith
  qed
qed

lemma grown_exact:
  assumes "k < length (Allocate T (grown k))"
  shows "grown k = max 1 (2 * k)" and "length (Allocate T (grown k)) = grown k"
proof -
  have le: "length (Allocate T (grown k)) \<le> grown k" by (rule Allocate_length_le)
  show g: "grown k = max 1 (2 * k)"
  proof (cases "k = 0")
    case True
    then show ?thesis by (simp add: grown_def)
  next
    case False
    have "2 * k < size_t_bound"
    proof (rule ccontr)
      assume "\<not> 2 * k < size_t_bound"
      then have ge: "size_t_bound \<le> 2 * k" by simp
      have lt: "(k * 2) mod size_t_bound < size_t_bound" by (simp add: size_t_bound_pos)
      from assms le False have klt: "k < (k * 2) mod size_t_bound" by (simp add: grown_def)
      with lt have "k < size_t_bound" by simp
      then have "2 * k < 2 * size_t_bound" by simp
      with ge have "(k * 2) mod size_t_bound = 2 * k - size_t_bound"
        by (metis le_mod_geq mod_less mult.commute less_diff_conv2 mult_2)
      with klt \<open>k < size_t_bound\<close> show False by linarith
    qed
    with False show ?thesis by (simp add: grown_def mult.commute)
  qed
  from g have "grown k \<le> 2 * k \<or> k = 0" by (cases "k = 0") simp_all
  then show "length (Allocate T (grown k)) = grown k"
  proof
    assume "grown k \<le> 2 * k"
    then show ?thesis using assms by (rule Allocate_exact)
  next
    assume "k = 0"
    then have g1: "grown k = 1" by (simp add: grown_def)
    from assms \<open>k = 0\<close> have "0 < length (Allocate T (grown k))"
      by (simp del: length_greater_0_conv)
    with le g1 show ?thesis by linarith
  qed
qed

lemma grown_fits: "fits T (max 1 (2 * k)) \<Longrightarrow> grown k = max 1 (2 * k)"
proof -
  assume f: "fits T (max 1 (2 * k))"
  then have pos: "0 < size_of T" and lt: "max 1 (2 * k) * size_of T < size_t_bound"
    by (simp_all add: fits_def)
  from pos have "max 1 (2 * k) \<le> max 1 (2 * k) * size_of T"
    by (cases "size_of T") auto
  with lt have "max 1 (2 * k) < size_t_bound" by linarith
  then show ?thesis by (cases "k = 0") (simp_all add: grown_def mult.commute)
qed

text \<open>The elements of a block that \<open>Allocate\<close> returned have a byte size in \<open>size_t\<close>.\<close>

lemma fits_block:
  assumes "0 < size_of T" and "n \<le> length (Allocate T c)"
  shows "fits T n"
proof -
  from assms(2) have "n * size_of T \<le> length (Allocate T c) * size_of T" by (rule mult_le_mono1)
  also have "\<dots> < size_t_bound" by (rule Allocate_bytes)
  finally show ?thesis using assms(1) by (simp add: fits_def)
qed

section \<open>The standard algorithms: destruction and progress\<close>


lemma copy_each_progress:
  "copy_each T xs dst j = (r, d', e) \<Longrightarrow> \<forall>x \<in> set xs. \<not> throws T CopyCtor x \<Longrightarrow>
     j + length xs \<le> length dst \<Longrightarrow> r = Returned ()"
  by (induction xs arbitrary: dst j r d' e)
     (fastforce simp: construct_at_def split: prod.splits outcome.splits if_splits)+

lemma move_each_progress:
  "move_each T xs src i dst j = (r, s', d', e) \<Longrightarrow> \<forall>x \<in> set xs. \<not> throws T MoveCtor x \<Longrightarrow>
     j + length xs \<le> length dst \<Longrightarrow> r = Returned ()"
  by (induction xs arbitrary: src i dst j r s' d' e)
     (fastforce simp: construct_at_def split: prod.splits outcome.splits if_splits)+

lemma transfer_n_progress:
  assumes "live src i n" and "j + n \<le> length dst"
    and "\<forall>x \<in> set (objects src i n). \<not> throws T (transfer_member T) x"
  shows "fst (transfer_n T src i n dst j) = Returned ()"
proof -
  from assms(1) have len: "length (objects src i n) = n"
    by (auto simp: live_def objects_def)
  show ?thesis
  proof (cases "nothrow_move_constructible T \<or> \<not> copy_constructible T")
    case True
    obtain r s' d' e where m: "move_each T (objects src i n) src i dst j = (r, s', d', e)"
      by (cases "move_each T (objects src i n) src i dst j") auto
    from True assms(3) have "\<forall>x \<in> set (objects src i n). \<not> throws T MoveCtor x"
      by (simp add: transfer_member_def)
    from move_each_progress[OF m this] len assms(2) have "r = Returned ()" by simp
    with True m assms(1,2) show ?thesis
      by (simp add: transfer_n_def uninitialized_move_n_def)
  next
    case False
    obtain r d' e where m: "copy_each T (objects src i n) dst j = (r, d', e)"
      by (cases "copy_each T (objects src i n) dst j") auto
    from False assms(3) have "\<forall>x \<in> set (objects src i n). \<not> throws T CopyCtor x"
      by (simp add: transfer_member_def)
    from copy_each_progress[OF m this] len assms(2) have "r = Returned ()" by simp
    with False m assms(1,2) show ?thesis
      by (simp add: transfer_n_def uninitialized_copy_n_def)
  qed
qed


lemma live_slice:
  assumes "live m 0 n" and "k \<le> n"
  shows "live m 0 k" and "live m k (n - k)"
proof -
  from assms(1) have len: "n \<le> length m"
    and all: "list_all (\<lambda>s. s \<noteq> None) (take n m)"
    by (simp_all add: live_def)
  have "list_all (\<lambda>s. s \<noteq> None) (take k m)"
    using all assms(2) set_take_subset_set_take[of k n m]
    by (auto simp: list_all_iff)
  with len assms(2) show "live m 0 k" by (simp add: live_def)
  have "take (n - k) (drop k m) = drop k (take n m)"
    by (simp add: drop_take)
  moreover from all have "list_all (\<lambda>s. s \<noteq> None) (drop k (take n m))"
    by (auto simp: list_all_iff dest: in_set_dropD)
  ultimately show "live m k (n - k)"
    using len assms(2) by (simp add: live_def)
qed

section \<open>Reserve\<close>


lemma live_append_raw:
  "live m 0 n \<Longrightarrow> live (take n m @ ys) 0 n"
  by (simp add: live_def)

lemma objects_append_raw:
  "n \<le> length m \<Longrightarrow> objects (take n m @ ys) 0 n = objects m 0 n"
  by (simp add: objects_def)

lemma Reserve_Returned:
  assumes "Reserve T v c = (Returned u, v', e)" and "Capacity v < c"
  shows "live (slots v) 0 (size' v)" and "size' v \<le> length (Allocate T c)"
    and "slots v' = take (size' v) (slots v) @ replicate (length (Allocate T c) - size' v) None"
    and "capacity' (data' v') = c" and "size' v' = size' v"
    and "e = replicate (size' v) (Call (transfer_member T)) @ replicate (size' v) (Call Dtor) @
             replicate (length e - 2 * size' v) Leak"
proof -
  from assms obtain d1 nd1 e1 d2 e2 where
    t: "transfer_n T (slots v) 0 (size' v) (Allocate T c) 0 = (Returned (), d1, nd1, e1)"
    and d: "destroy_n d1 0 (size' v) = (d2, e2)"
    and v': "v' = v\<lparr>data' := \<lparr>buffer' = nd1, capacity' = c\<rparr>\<rparr>" and e: "e = e1 @ e2 @ Deallocate d2"
    by (auto simp: Reserve_def RawMemory_new_def split: if_splits prod.splits outcome.splits)
  note tr = transfer_n_Returned[OF t]
  from tr show "live (slots v) 0 (size' v)" by simp
  from tr show "size' v \<le> length (Allocate T c)" by simp
  have "drop (size' v) (Allocate T c) = replicate (length (Allocate T c) - size' v) None"
    by (subst Allocate_raw) simp
  with tr show "slots v' = take (size' v) (slots v) @ replicate (length (Allocate T c) - size' v) None"
    by (simp add: v')
  show "capacity' (data' v') = c" by (simp add: v')
  show "size' v' = size' v" by (simp add: v')
  from tr destroy_n_trace[OF d] e
  show "e = replicate (size' v) (Call (transfer_member T)) @ replicate (size' v) (Call Dtor) @
             replicate (length e - 2 * size' v) Leak"
    by (simp add: Deallocate_def)
qed

lemma Reserve_progress:
  assumes "valid v" and "Capacity v < c" and "fits T c"
    and "\<forall>x \<in> set (elements v). \<not> throws T (transfer_member T) x"
  shows "fst (Reserve T v c) = Returned ()"
proof -
  from assms(1,2) have "size' v \<le> c"
    by (simp add: valid_def live_def Capacity_def RawMemory_Capacity_def)
  with assms have "fst (transfer_n T (slots v) 0 (size' v) (Allocate T c) 0) = Returned ()"
    by (intro transfer_n_progress) (simp_all add: valid_def elements_def Allocate_fits)
  with assms(2) show ?thesis
    by (auto simp: Reserve_def RawMemory_new_def split: prod.splits outcome.splits)
qed


text \<open>What a growing \<open>Reserve\<close> that returns has done, whatever block it was given.\<close>

lemma Reserve_kept:
  assumes r: "Reserve T v c = (Returned u, v', e)" and c: "Capacity v < c"
  shows "Capacity v' = c" and "size' v' = size' v" and "elements v' = elements v"
    and "live (slots v') 0 (size' v')"
    and "length (slots v') = length (Allocate T c)"
proof -
  note R = Reserve_Returned[OF r c]
  from R(1) have le: "size' v \<le> length (slots v)" by (simp add: live_def)
  from R(4) show "Capacity v' = c" by (simp add: Capacity_def RawMemory_Capacity_def)
  show "size' v' = size' v" by (rule R(5))
  from R le show "elements v' = elements v" by (simp add: elements_def objects_append_raw)
  from R le show "live (slots v') 0 (size' v')" by (simp add: live_append_raw)
  from R le show "length (slots v') = length (Allocate T c)" by simp
qed


section \<open>Resize\<close>








section \<open>PushBack and EmplaceBack\<close>

lemma EmplaceBack_PushBack:
  "EmplaceBack T v a =
     (case PushBack T v a of
        (Returned u, v', e) \<Rightarrow> (Returned (value_of a), v', e)
      | (Threw, v', e) \<Rightarrow> (Threw, v', e)
      | (Abort, v', e) \<Rightarrow> (Abort, v', e))"
proof (cases "Capacity v \<le> size' v")
  case True
  let ?nd = "buffer' (RawMemory_new T (grown (size' v)))"
  obtain r1 nd1 e1 where c: "construct_at T (constructor_of a) ?nd (size' v) (value_of a) = (r1, nd1, e1)"
    by (cases "construct_at T (constructor_of a) ?nd (size' v) (value_of a)") auto
  obtain r2 d2 nd2 e2 where t: "transfer_n T (slots v) 0 (size' v) nd1 0 = (r2, d2, nd2, e2)"
    by (cases "transfer_n T (slots v) 0 (size' v) nd1 0") auto
  obtain d3 e3 where d: "destroy_n d2 0 (size' v) = (d3, e3)"
    by (cases "destroy_n d2 0 (size' v)")
  from True c t d show ?thesis
    by (cases r1; cases r2) (simp_all add: EmplaceBack_def PushBack_def)
next
  case False
  obtain r1 d1 e1 where c: "construct_at T (constructor_of a) (slots v) (size' v) (value_of a) = (r1, d1, e1)"
    by (cases "construct_at T (constructor_of a) (slots v) (size' v) (value_of a)") auto
  from False c show ?thesis
    by (cases r1) (simp_all add: EmplaceBack_def PushBack_def)
qed

lemma PushBack_size_capacity:
  assumes "PushBack T v a = (r, v', e)"
  shows "(r = Returned () \<longrightarrow> size' v' = size' v + 1 \<and>
            Capacity v' = (if Capacity v \<le> size' v then max 1 (2 * size' v) else Capacity v))
       \<and> (r \<noteq> Returned () \<longrightarrow> size' v' = size' v \<and> Capacity v' = Capacity v)"
proof (cases "Capacity v \<le> size' v")
  case True
  let ?nd = "Allocate T (grown (size' v))"
  obtain r1 nd1 e1 where c: "construct_at T (constructor_of a) ?nd (size' v) (value_of a) = (r1, nd1, e1)"
    by (cases "construct_at T (constructor_of a) ?nd (size' v) (value_of a)") auto
  obtain r2 d2 nd2 e2 where t: "transfer_n T (slots v) 0 (size' v) nd1 0 = (r2, d2, nd2, e2)"
    by (cases "transfer_n T (slots v) 0 (size' v) nd1 0") auto
  obtain d3 e3 where d: "destroy_n d2 0 (size' v) = (d3, e3)"
    by (cases "destroy_n d2 0 (size' v)")
  have g: "grown (size' v) = max 1 (2 * size' v)" if "r1 = Returned ()"
    using c that grown_exact(1)[of "size' v" T] by (auto simp: construct_at_def split: if_splits)
  from assms True c t d
  have "(r = Returned () \<longrightarrow> r1 = Returned () \<and> size' v' = size' v + 1 \<and>
            Capacity v' = grown (size' v))
       \<and> (r \<noteq> Returned () \<longrightarrow> size' v' = size' v \<and> Capacity v' = Capacity v)"
    by (cases r1; cases r2)
       (auto simp: PushBack_def Capacity_def RawMemory_Capacity_def RawMemory_new_def)
  with g True show ?thesis by auto
next
  case False
  obtain r1 d1 e1 where c: "construct_at T (constructor_of a) (slots v) (size' v) (value_of a) = (r1, d1, e1)"
    by (cases "construct_at T (constructor_of a) (slots v) (size' v) (value_of a)") auto
  from assms False c show ?thesis
    by (cases r1) (auto simp: PushBack_def Capacity_def RawMemory_Capacity_def)
qed

lemma EmplaceBack_size_capacity:
  assumes "EmplaceBack T v a = (r, v', e)"
  shows "(r = Returned (value_of a) \<longrightarrow> size' v' = size' v + 1 \<and>
            Capacity v' = (if Capacity v \<le> size' v then max 1 (2 * size' v) else Capacity v))
       \<and> (r \<noteq> Returned (value_of a) \<longrightarrow> size' v' = size' v \<and> Capacity v' = Capacity v)"
proof -
  obtain r0 v0 e0 where p: "PushBack T v a = (r0, v0, e0)"
    by (cases "PushBack T v a") auto
  from PushBack_size_capacity[OF p] assms p show ?thesis
    by (cases r0) (auto simp: EmplaceBack_PushBack)
qed

lemma append_size_capacity:
  assumes "append_step T v a = (ok, v')"
  shows "(ok \<longrightarrow> size' v' = size' v + 1 \<and>
            Capacity v' = (if Capacity v \<le> size' v then max 1 (2 * size' v) else Capacity v))
       \<and> (\<not> ok \<longrightarrow> size' v' = size' v \<and> Capacity v' = Capacity v)"
proof (cases a)
  case (Push x)
  then show ?thesis
    using assms PushBack_size_capacity[of T v x] by (auto split: prod.splits)
next
  case (Emplaced x)
  then show ?thesis
    using assms EmplaceBack_size_capacity[of T v x] by (auto split: prod.splits)
qed

lemma PushBack_appends:
  assumes v: "valid v" and f: "Capacity v \<le> size' v \<longrightarrow> fits T (max 1 (2 * size' v))"
    and na: "\<not> throws T (constructor_of a) (value_of a)"
    and nt: "\<forall>x \<in> set (elements v). \<not> throws T (transfer_member T) x"
  shows "\<exists>v' e. PushBack T v a = (Returned (), v', e) \<and> valid v' \<and> size' v' = size' v + 1 \<and>
           elements v' = elements v @ [value_of a]"
proof -
  let ?n = "size' v" and ?x = "value_of a" and ?k = "constructor_of a"
  from v have len: "?n \<le> length (slots v)" and lv: "live (slots v) 0 ?n"
    and capl: "capacity' (data' v) = length (slots v)"
    by (simp_all add: valid_def live_def)
  from lv have all: "list_all (\<lambda>s. s \<noteq> None) (take ?n (slots v))" by (simp add: live_def)
  show ?thesis
  proof (cases "Capacity v \<le> ?n")
    case True
    let ?g = "max 1 (2 * ?n)"
    from True f have fg: "fits T ?g" by simp
    have g: "grown ?n = ?g" by (rule grown_fits[OF fg])
    have al: "Allocate T ?g = replicate ?g None" by (rule Allocate_fits[OF fg])
    have lt: "?n < ?g" by (simp add: max_def)
    let ?nd1 = "(replicate ?g None)[?n := Some ?x]"
    have c: "construct_at T ?k (Allocate T (grown ?n)) ?n ?x = (Returned (), ?nd1, [Call ?k])"
      unfolding g al using lt na by (simp add: construct_at_def)
    have "fst (transfer_n T (slots v) 0 ?n ?nd1 0) = Returned ()"
      using lv lt nt by (intro transfer_n_progress) (simp_all add: elements_def)
    then obtain d2 nd2 e2 where t: "transfer_n T (slots v) 0 ?n ?nd1 0 = (Returned (), d2, nd2, e2)"
      by (cases "transfer_n T (slots v) 0 ?n ?nd1 0") auto
    obtain d3 e3 where d: "destroy_n d2 0 ?n = (d3, e3)" by (cases "destroy_n d2 0 ?n")
    note TR = transfer_n_Returned[OF t]
    from lt have "?nd1 ! ?n = Some ?x" by simp
    with lt have dr: "drop ?n ?nd1 = Some ?x # drop (Suc ?n) ?nd1"
      using Cons_nth_drop_Suc[of ?n ?nd1] by simp
    from TR have "nd2 = take ?n (slots v) @ drop ?n ?nd1" by simp
    then have nd2: "nd2 = take ?n (slots v) @ Some ?x # drop (Suc ?n) ?nd1" by (simp only: dr)
    let ?v' = "\<lparr>data' = \<lparr>buffer' = nd2, capacity' = ?g\<rparr>, size' = ?n + 1\<rparr>"
    have p: "PushBack T v a = (Returned (), ?v', [Call ?k] @ e2 @ e3 @ Deallocate d3)"
      using True c t d by (simp add: PushBack_def RawMemory_new_def g)
    from len have mn: "min (length (slots v)) ?n = ?n" by simp
    have lnd2: "length nd2 = ?g" using lt by (simp add: nd2 mn)
    have tk: "take (Suc ?n) nd2 = take ?n (slots v) @ [Some ?x]" by (simp add: nd2 mn)
    have "valid ?v'" using lnd2 tk all lt by (simp add: valid_def live_def)
    moreover have "elements ?v' = elements v @ [?x]" using tk by (simp add: elements_def objects_def)
    ultimately show ?thesis using p by simp
  next
    case False
    with capl have room: "?n < length (slots v)" by (simp add: Capacity_def RawMemory_Capacity_def)
    let ?v' = "\<lparr>data' = (data' v)\<lparr>buffer' := (slots v)[?n := Some ?x]\<rparr>, size' = ?n + 1\<rparr>"
    have p: "PushBack T v a = (Returned (), ?v', [Call ?k])"
      using False room na by (simp add: PushBack_def construct_at_def)
    have tk: "take (Suc ?n) ((slots v)[?n := Some ?x]) = take ?n (slots v) @ [Some ?x]"
      using room by (rule take_Suc_update)
    have "valid ?v'" using tk all room capl by (simp add: valid_def live_def)
    moreover have "elements ?v' = elements v @ [?x]" using tk by (simp add: elements_def objects_def)
    ultimately show ?thesis using p by simp
  qed
qed

lemma append_step_appends:
  assumes v: "valid v" and f: "Capacity v \<le> size' v \<longrightarrow> fits T (max 1 (2 * size' v))"
    and na: "\<not> throws T (constructor_of (appended a)) (value_of (appended a))"
    and nt: "\<forall>x \<in> set (elements v). \<not> throws T (transfer_member T) x"
  shows "\<exists>v'. append_step T v a = (True, v') \<and> valid v' \<and> size' v' = size' v + 1 \<and>
           elements v' = elements v @ [value_of (appended a)]"
proof -
  from PushBack_appends[OF v f na nt] obtain v' e where
    p: "PushBack T v (appended a) = (Returned (), v', e)" and r: "valid v'" "size' v' = size' v + 1"
      "elements v' = elements v @ [value_of (appended a)]"
    by blast
  show ?thesis
  proof (cases a)
    case (Push x)
    with p r show ?thesis by simp
  next
    case (Emplaced x)
    with p r show ?thesis by (simp add: EmplaceBack_PushBack)
  qed
qed

text \<open>An append leaves \<open>capacity_\<close> the number of slots of the block, whatever its outcome.\<close>

lemma PushBack_block:
  assumes "PushBack T v a = (r, v', e)" and "capacity' (data' v) = length (slots v)"
  shows "capacity' (data' v') = length (slots v')"
proof (cases "Capacity v \<le> size' v")
  case True
  let ?nd = "Allocate T (grown (size' v))"
  obtain r1 nd1 e1 where c: "construct_at T (constructor_of a) ?nd (size' v) (value_of a) = (r1, nd1, e1)"
    by (cases "construct_at T (constructor_of a) ?nd (size' v) (value_of a)") auto
  obtain r2 d2 nd2 e2 where t: "transfer_n T (slots v) 0 (size' v) nd1 0 = (r2, d2, nd2, e2)"
    by (cases "transfer_n T (slots v) 0 (size' v) nd1 0") auto
  obtain d3 e3 where d: "destroy_n d2 0 (size' v) = (d3, e3)"
    by (cases "destroy_n d2 0 (size' v)")
  have g: "length nd2 = grown (size' v)" if "r1 = Returned ()"
  proof -
    from c that have "size' v < length ?nd" by (auto simp: construct_at_def split: if_splits)
    from grown_exact(2)[OF this] construct_at_length[OF c] transfer_n_length[OF t]
    show ?thesis by simp
  qed
  from transfer_n_length[OF t] have l2: "length d2 = length (slots v)" by simp
  from assms True c t d g l2 show ?thesis
    by (cases r1; cases r2) (auto simp: PushBack_def RawMemory_new_def)
next
  case False
  obtain r1 d1 e1 where c: "construct_at T (constructor_of a) (slots v) (size' v) (value_of a) = (r1, d1, e1)"
    by (cases "construct_at T (constructor_of a) (slots v) (size' v) (value_of a)") auto
  from assms False c construct_at_length[OF c] show ?thesis
    by (cases r1) (auto simp: PushBack_def)
qed

lemma append_step_block:
  assumes "append_step T v a = (ok, v')" and "capacity' (data' v) = length (slots v)"
  shows "capacity' (data' v') = length (slots v')"
proof -
  obtain r0 v0 e0 where p: "PushBack T v (appended a) = (r0, v0, e0)"
    by (cases "PushBack T v (appended a)") auto
  from PushBack_block[OF p assms(2)] assms(1) p show ?thesis
    by (cases a; cases r0) (auto simp: EmplaceBack_PushBack)
qed

section \<open>Growth of the capacity\<close>

lemma append_doubled:
  assumes "doubled v" and "append_step T v a = (ok, v')"
  shows "doubled v'"
proof (cases ok)
  case False
  then show ?thesis using assms append_size_capacity[OF assms(2)] by (simp add: doubled_def)
next
  case True
  note sc = append_size_capacity[OF assms(2)]
  show ?thesis
  proof (cases "size' v = 0")
    case True
    with \<open>ok\<close> sc assms(1) have "size' v' = 1" "Capacity v' = 1"
      by (auto simp: doubled_def)
    then show ?thesis
      unfolding doubled_def by (auto intro: exI[of _ 0])
  next
    case False
    with assms(1) obtain k where k: "size' v \<le> Capacity v" "Capacity v = 2 ^ k" "2 ^ k < 2 * size' v"
      by (auto simp: doubled_def)
    show ?thesis
    proof (cases "Capacity v \<le> size' v")
      case True
      with k \<open>ok\<close> sc False have "size' v' = 2 ^ k + 1" "Capacity v' = 2 ^ Suc k"
        by (auto simp: max_def)
      then show ?thesis
        unfolding doubled_def by (auto intro: exI[of _ "Suc k"])
    next
      case False
      with k \<open>ok\<close> sc have "size' v' = size' v + 1" "Capacity v' = 2 ^ k"
        by auto
      with k False show ?thesis
        unfolding doubled_def by (auto intro: exI[of _ k])
    qed
  qed
qed

lemma appends_doubled:
  "doubled v \<Longrightarrow> (ok, w) \<in> set (append_steps T v as) \<Longrightarrow> doubled w"
proof (induction as arbitrary: v)
  case Nil
  then show ?case by simp
next
  case (Cons a as)
  obtain ok1 v1 where a: "append_step T v a = (ok1, v1)" by (cases "append_step T v a")
  have d1: "doubled v1" using append_doubled[OF Cons.prems(1) a] .
  from Cons.prems(2) a have "(ok, w) = (ok1, v1) \<or> (ok, w) \<in> set (append_steps T v1 as)"
    by simp
  then show ?case using d1 Cons.IH[OF d1] by auto
qed

lemma appends_block:
  "capacity' (data' v) = length (slots v) \<Longrightarrow> (ok, w) \<in> set (append_steps T v as) \<Longrightarrow>
     capacity' (data' w) = length (slots w)"
proof (induction as arbitrary: v)
  case Nil
  then show ?case by simp
next
  case (Cons a as)
  obtain ok1 v1 where a: "append_step T v a = (ok1, v1)" by (cases "append_step T v a")
  have b1: "capacity' (data' v1) = length (slots v1)" using append_step_block[OF a Cons.prems(1)] .
  from Cons.prems(2) a have "(ok, w) = (ok1, v1) \<or> (ok, w) \<in> set (append_steps T v1 as)"
    by simp
  then show ?case using b1 Cons.IH[OF b1] by auto
qed

lemma appends_length: "length (append_steps T v as) = length as"
  by (induction as arbitrary: v) (auto split: prod.splits)

lemma appends_size_nth:
  "list_all fst (append_steps T v as) \<Longrightarrow> i < length as \<Longrightarrow>
     size' (snd (append_steps T v as ! i)) = size' v + i + 1"
proof (induction as arbitrary: v i)
  case Nil
  then show ?case by simp
next
  case (Cons a as)
  obtain ok1 v1 where a: "append_step T v a = (ok1, v1)" by (cases "append_step T v a")
  with Cons.prems have ok1 and rest: "list_all fst (append_steps T v1 as)" by auto
  from append_size_capacity[OF a] \<open>ok1\<close> have s1: "size' v1 = Suc (size' v)" by simp
  show ?case
  proof (cases i)
    case 0
    then show ?thesis using a s1 by simp
  next
    case (Suc i')
    then show ?thesis using a s1 Cons.IH[OF rest, of i'] Cons.prems(2) by simp
  qed
qed

lemma appends_sizes:
  assumes "list_all fst (append_steps T v as)"
  shows "map (\<lambda>(ok, w). size' w) (append_steps T v as) = [Suc (size' v)..<Suc (size' v + length as)]"
proof (rule nth_equalityI)
  show "length (map (\<lambda>(ok, w). size' w) (append_steps T v as)) =
        length [Suc (size' v)..<Suc (size' v + length as)]"
    by (simp add: appends_length del: upt_Suc)
next
  fix i
  assume "i < length (map (\<lambda>(ok, w). size' w) (append_steps T v as))"
  then have i: "i < length as" by (simp add: appends_length)
  then have "[Suc (size' v)..<Suc (size' v + length as)] ! i = size' v + i + 1"
    by (simp del: upt_Suc)
  moreover have "map (\<lambda>(ok, w). size' w) (append_steps T v as) ! i = size' (snd (append_steps T v as ! i))"
    using i by (simp add: appends_length case_prod_unfold)
  ultimately show "map (\<lambda>(ok, w). size' w) (append_steps T v as) ! i =
        [Suc (size' v)..<Suc (size' v + length as)] ! i"
    using appends_size_nth[OF assms i] by simp
qed

lemma Emplace_growth:
  assumes r: "Emplace T v k a = (Returned p, v', e)" and full: "Capacity v \<le> size' v"
  shows "Capacity v' = max 1 (2 * size' v)"
proof -
  let ?nd = "Allocate T (grown (size' v))"
  from r have k: "k \<le> size' v"
    by (auto simp: Emplace_def cbegin_def cend_def split: if_splits)
  obtain r1 nd1 e1 where c1: "construct_at T (constructor_of a) ?nd k (value_of a) = (r1, nd1, e1)"
    by (cases "construct_at T (constructor_of a) ?nd k (value_of a)") auto
  obtain r2 d2 nd2 e2 where t1: "transfer_n T (slots v) 0 k nd1 0 = (r2, d2, nd2, e2)"
    by (cases "transfer_n T (slots v) 0 k nd1 0") auto
  obtain r3 d3 nd3 e3 where t2: "transfer_n T d2 k (size' v - k) nd2 (k + 1) = (r3, d3, nd3, e3)"
    by (cases "transfer_n T d2 k (size' v - k) nd2 (k + 1)") auto
  obtain d4 e4 where d4: "destroy_n d3 0 (size' v) = (d4, e4)" by (cases "destroy_n d3 0 (size' v)")
  obtain nd4 e5 where d5: "destroy_n nd3 0 k = (nd4, e5)" by (cases "destroy_n nd3 0 k")
  obtain nd5 e6 where d6: "destroy_at nd2 k = (nd5, e6)" by (cases "destroy_at nd2 k")
  from r k full c1 t1 t2 d4 d5 d6 have r1: "r1 = Returned ()"
    by (cases r1) (simp_all add: Emplace_def cbegin_def cend_def RawMemory_new_def)
  from r k full c1 t1 t2 d4 d5 d6 r1 have r2: "r2 = Returned ()"
    by (cases r2) (simp_all add: Emplace_def cbegin_def cend_def RawMemory_new_def)
  from r k full c1 t1 t2 d4 d5 d6 r1 r2 have r3: "r3 = Returned ()"
    and cap: "Capacity v' = grown (size' v)"
    by (cases r3; simp add: Emplace_def cbegin_def cend_def RawMemory_new_def
          Capacity_def RawMemory_Capacity_def; fastforce)+
  from transfer_n_Returned[OF t2[unfolded r3]] k have "size' v < length nd2" by simp
  also from transfer_n_length[OF t1] have "length nd2 = length nd1" by simp
  also from construct_at_length[OF c1] have "length nd1 = length ?nd" .
  finally have "size' v < length ?nd" .
  from grown_exact(1)[OF this] cap show ?thesis by simp
qed

lemma doubled_default: "doubled Vector_default"
  by (simp add: doubled_def Vector_default_def RawMemory_default_def Capacity_def RawMemory_Capacity_def)

lemma fits_mono: "fits T m \<Longrightarrow> n \<le> m \<Longrightarrow> fits T n"
proof -
  assume f: "fits T m" and le: "n \<le> m"
  from le have "n * size_of T \<le> m * size_of T" by (rule mult_le_mono1)
  moreover from f have "0 < size_of T" and "m * size_of T < size_t_bound" by (simp_all add: fits_def)
  ultimately show ?thesis unfolding fits_def by linarith
qed

lemma appends_progress:
  assumes "valid v" and "\<forall>x \<in> set (elements v). \<not> throws T (transfer_member T) x"
    and "\<forall>a \<in> set as. \<not> throws T (constructor_of (appended a)) (value_of (appended a)) \<and>
           \<not> throws T (transfer_member T) (value_of (appended a))"
    and "fits T (2 * (size' v + length as))"
  shows "list_all fst (append_steps T v as) \<and> valid (after_appends T v as) \<and>
         elements (after_appends T v as) = elements v @ map (\<lambda>a. value_of (appended a)) as"
  using assms
proof (induction as arbitrary: v)
  case Nil
  then show ?case by simp
next
  case (Cons a as)
  have "max 1 (2 * size' v) \<le> 2 * (size' v + length (a # as))" by simp
  from fits_mono[OF Cons.prems(4) this]
  have f: "Capacity v \<le> size' v \<longrightarrow> fits T (max 1 (2 * size' v))" by simp
  from Cons.prems(3) have na: "\<not> throws T (constructor_of (appended a)) (value_of (appended a))"
    and nta: "\<not> throws T (transfer_member T) (value_of (appended a))"
    and rest: "\<forall>a \<in> set as. \<not> throws T (constructor_of (appended a)) (value_of (appended a)) \<and>
           \<not> throws T (transfer_member T) (value_of (appended a))"
    by simp_all
  from append_step_appends[OF Cons.prems(1) f na Cons.prems(2)] obtain v1 where
    s: "append_step T v a = (True, v1)" and v1: "valid v1" and n1: "size' v1 = size' v + 1"
    and e1: "elements v1 = elements v @ [value_of (appended a)]"
    by blast
  from e1 Cons.prems(2) nta have nt1: "\<forall>x \<in> set (elements v1). \<not> throws T (transfer_member T) x"
    by simp
  from Cons.prems(4) n1 have f1: "fits T (2 * (size' v1 + length as))" by simp
  from Cons.IH[OF v1 nt1 rest f1] s e1 show ?case by simp
qed

section \<open>The transfer rule\<close>

lemma transfer_n_rule:
  assumes "transfer_n T src i n dst j = (r, s', d', e)"
  shows "transferred_by_rule T n (r = Returned ()) e"
proof -
  from transfer_n_events[OF assms] have ev: "set e \<subseteq> {Call (transfer_member T), Call Dtor}" .
  have ret: "e = replicate n (Call (transfer_member T))" if "r = Returned ()"
    using transfer_n_Returned[of T src i n dst j "()" s' d' e] assms that by simp
  show ?thesis
  proof (cases "nothrow_move_constructible T \<or> \<not> copy_constructible T")
    case True
    then have tm: "transfer_member T = MoveCtor" by (simp add: transfer_member_def)
    with ev have "Call CopyCtor \<notin> set e" by auto
    then show ?thesis using True ret tm
      by (auto simp: transferred_by_rule_def count_list_replicate)
  next
    case False
    then have tm: "transfer_member T = CopyCtor" by (simp add: transfer_member_def)
    with ev have "Call MoveCtor \<notin> set e" by auto
    then show ?thesis using False ret tm
      by (auto simp: transferred_by_rule_def count_list_replicate)
  qed
qed

lemma other_calls_simps [simp]:
  "other_calls []" "other_calls (Deallocate m)" "other_calls [Call ArgsCtor]" "other_calls [Call Dtor]"
  "other_calls (replicate n (Call Dtor))"
  "other_calls (e1 @ e2) = (other_calls e1 \<and> other_calls e2)"
  by (auto simp: other_calls_def Deallocate_def count_list_replicate)

lemma construct_at_trace:
  "construct_at T k m i x = (r, m', e) \<Longrightarrow> (r = Abort \<and> e = []) \<or> (r \<noteq> Abort \<and> e = [Call k])"
  by (auto simp: construct_at_def split: if_splits)

lemma destroy_n_other: "destroy_n m i n = (m', e) \<Longrightarrow> other_calls e"
  by (auto dest: destroy_n_trace)

lemma destroy_at_other: "destroy_at m i = (m', e) \<Longrightarrow> other_calls e"
  by (auto simp: destroy_at_def)

lemma rule_pad:
  "transferred_by_rule T n b e \<Longrightarrow> other_calls e1 \<Longrightarrow> other_calls e2 \<Longrightarrow>
     transferred_by_rule T n b (e1 @ e @ e2)"
  by (auto simp: transferred_by_rule_def other_calls_def)

lemma rule_seq:
  "transferred_by_rule T n1 True e1 \<Longrightarrow> transferred_by_rule T n2 b e2 \<Longrightarrow>
     transferred_by_rule T (n1 + n2) b (e1 @ e2)"
  by (auto simp: transferred_by_rule_def)

lemma rule_weaken:
  "transferred_by_rule T n b e \<Longrightarrow> transferred_by_rule T m False e"
  by (auto simp: transferred_by_rule_def)

lemma rule_other: "other_calls e \<Longrightarrow> transferred_by_rule T n False e"
  by (auto simp: transferred_by_rule_def other_calls_def)

lemma PushBack_rule:
  assumes "PushBack T v a = (r, v', e)" and "Capacity v \<le> size' v"
  shows "transferred_by_rule T (size' v) (r = Returned ()) (drop 1 e)"
    and "r \<noteq> Abort \<longrightarrow> take 1 e = [Call (constructor_of a)]"
proof -
  let ?nd = "Allocate T (grown (size' v))" and ?k = "constructor_of a"
  obtain r1 nd1 e1 where c: "construct_at T ?k ?nd (size' v) (value_of a) = (r1, nd1, e1)"
    by (cases "construct_at T ?k ?nd (size' v) (value_of a)") auto
  note tr = construct_at_trace[OF c]
  have "transferred_by_rule T (size' v) (r = Returned ()) (drop 1 e) \<and>
      (r \<noteq> Abort \<longrightarrow> take 1 e = [Call ?k])"
  proof (cases "r1 = Returned ()")
    case False
    with assms c tr show ?thesis
      by (cases r1) (auto simp: PushBack_def RawMemory_new_def intro!: rule_other)
  next
    case True
    with tr have e1: "e1 = [Call ?k]" by simp
    obtain r2 d2 nd2 e2 where t: "transfer_n T (slots v) 0 (size' v) nd1 0 = (r2, d2, nd2, e2)"
      by (cases "transfer_n T (slots v) 0 (size' v) nd1 0") auto
    obtain d3 e3 where d: "destroy_n d2 0 (size' v) = (d3, e3)"
      by (cases "destroy_n d2 0 (size' v)")
    from rule_pad[OF transfer_n_rule[OF t], of "[]" "e3 @ Deallocate d3"] destroy_n_other[OF d]
    have full: "transferred_by_rule T (size' v) (r2 = Returned ()) (e2 @ e3 @ Deallocate d3)"
      by simp
    from rule_pad[OF transfer_n_rule[OF t], of "[]" "Deallocate nd2"]
    have part: "transferred_by_rule T (size' v) (r2 = Returned ()) (e2 @ Deallocate nd2)"
      by simp
    note none = transfer_n_rule[OF t]
    from assms c True e1 t d full part none show ?thesis
      by (cases r2) (auto simp: PushBack_def RawMemory_new_def)
  qed
  then show "transferred_by_rule T (size' v) (r = Returned ()) (drop 1 e)"
    and "r \<noteq> Abort \<longrightarrow> take 1 e = [Call (constructor_of a)]"
    by simp_all
qed

lemma EmplaceBack_rule:
  assumes "EmplaceBack T v a = (r, v', e)" and "Capacity v \<le> size' v"
  shows "transferred_by_rule T (size' v) (r = Returned (value_of a)) (drop 1 e)"
    and "r \<noteq> Abort \<longrightarrow> take 1 e = [Call (constructor_of a)]"
proof -
  obtain r0 v0 e0 where p: "PushBack T v a = (r0, v0, e0)"
    by (cases "PushBack T v a") auto
  from PushBack_rule[OF p assms(2)] assms(1) p
  show "transferred_by_rule T (size' v) (r = Returned (value_of a)) (drop 1 e)"
    and "r \<noteq> Abort \<longrightarrow> take 1 e = [Call (constructor_of a)]"
    by (cases r0; auto simp: EmplaceBack_PushBack)+
qed

lemma Reserve_rule:
  assumes "Reserve T v c = (r, v', e)" and "Capacity v < c"
  shows "transferred_by_rule T (size' v) (r = Returned ()) e"
proof -
  obtain r2 d2 nd2 e2 where t: "transfer_n T (slots v) 0 (size' v) (Allocate T c) 0 = (r2, d2, nd2, e2)"
    by (cases "transfer_n T (slots v) 0 (size' v) (Allocate T c) 0") auto
  obtain d3 e3 where d: "destroy_n d2 0 (size' v) = (d3, e3)"
    by (cases "destroy_n d2 0 (size' v)")
  from rule_pad[OF transfer_n_rule[OF t], of "[]" "e3 @ Deallocate d3"] destroy_n_other[OF d]
  have full: "transferred_by_rule T (size' v) (r2 = Returned ()) (e2 @ e3 @ Deallocate d3)"
    by simp
  from rule_pad[OF transfer_n_rule[OF t], of "[]" "Deallocate nd2"]
  have part: "transferred_by_rule T (size' v) (r2 = Returned ()) (e2 @ Deallocate nd2)"
    by simp
  from transfer_n_rule[OF t] assms t d full part show ?thesis
    by (cases r2) (auto simp: Reserve_def RawMemory_new_def)
qed

lemma Emplace_rule:
  assumes "Emplace T v pos a = (r, v', e)" and "Capacity v \<le> size' v"
  shows "transferred_by_rule T (size' v) (r = Returned pos) (drop 1 e)"
    and "r \<noteq> Abort \<longrightarrow> take 1 e = [Call (constructor_of a)]"
proof -
  let ?k = "constructor_of a"
  have "transferred_by_rule T (size' v) (r = Returned pos) (drop 1 e) \<and>
      (r \<noteq> Abort \<longrightarrow> take 1 e = [Call ?k])"
  proof (cases "pos \<le> size' v")
    case False
    with assms show ?thesis
      by (auto simp: Emplace_def cbegin_def cend_def intro!: rule_other)
  next
    case pos: True
    let ?nd = "Allocate T (grown (size' v))"
    obtain r1 nd1 e1 where c: "construct_at T ?k ?nd pos (value_of a) = (r1, nd1, e1)"
      by (cases "construct_at T ?k ?nd pos (value_of a)") auto
    note tr = construct_at_trace[OF c]
    show ?thesis
    proof (cases "r1 = Returned ()")
      case False
      with assms c tr pos show ?thesis
        by (cases r1) (auto simp: Emplace_def RawMemory_new_def cbegin_def cend_def intro!: rule_other)
    next
      case r1: True
      with tr have e1: "e1 = [Call ?k]" by simp
      obtain r2 d2 nd2 e2 where t1: "transfer_n T (slots v) 0 pos nd1 0 = (r2, d2, nd2, e2)"
        by (cases "transfer_n T (slots v) 0 pos nd1 0") auto
      note p1 = transfer_n_rule[OF t1]
      show ?thesis
      proof (cases "r2 = Returned ()")
        case False
        obtain nd3 e3 where d: "destroy_at nd2 pos = (nd3, e3)" by (cases "destroy_at nd2 pos")
        from rule_pad[OF rule_weaken[OF p1, of "size' v"], of "[]" "e3 @ Deallocate nd3"]
          destroy_at_other[OF d]
        have thrown: "transferred_by_rule T (size' v) False (e2 @ e3 @ Deallocate nd3)"
          by simp
        note aborted = rule_weaken[OF p1, of "size' v"]
        from False assms c r1 e1 t1 d pos thrown aborted show ?thesis
          by (cases r2) (auto simp: Emplace_def RawMemory_new_def cbegin_def cend_def)
      next
        case r2: True
        obtain r3 d3 nd3 e3 where t2: "transfer_n T d2 pos (size' v - pos) nd2 (pos + 1) = (r3, d3, nd3, e3)"
          by (cases "transfer_n T d2 pos (size' v - pos) nd2 (pos + 1)") auto
        from rule_seq[of T pos e2 "size' v - pos" "r3 = Returned ()" e3] p1 r2 transfer_n_rule[OF t2] pos
        have both: "transferred_by_rule T (size' v) (r3 = Returned ()) (e2 @ e3)" by simp
        obtain d4 e4 where d4: "destroy_n d3 0 (size' v) = (d4, e4)" by (cases "destroy_n d3 0 (size' v)")
        obtain nd4 e5 where d5: "destroy_n nd3 0 pos = (nd4, e5)" by (cases "destroy_n nd3 0 pos")
        from rule_pad[OF both, of "[]" "e4 @ Deallocate d4"] destroy_n_other[OF d4]
        have full: "transferred_by_rule T (size' v) (r3 = Returned ()) (e2 @ e3 @ e4 @ Deallocate d4)"
          by simp
        from rule_pad[OF both, of "[]" "e5 @ Deallocate nd4"] destroy_n_other[OF d5]
        have thrown: "transferred_by_rule T (size' v) (r3 = Returned ()) (e2 @ e3 @ e5 @ Deallocate nd4)"
          by simp
        from assms c r1 e1 t1 r2 t2 d4 d5 pos full thrown both show ?thesis
          by (cases r3) (auto simp: Emplace_def RawMemory_new_def cbegin_def cend_def)
      qed
    qed
  qed
  then show "transferred_by_rule T (size' v) (r = Returned pos) (drop 1 e)"
    and "r \<noteq> Abort \<longrightarrow> take 1 e = [Call (constructor_of a)]"
    by simp_all
qed

lemma objects_slice: "set (objects m i n) \<subseteq> set (objects m 0 (i + n))"
proof -
  have "take n (drop i m) = drop i (take (i + n) m)" by (simp add: drop_take)
  then have "set (take n (drop i m)) \<subseteq> set (take (i + n) m)" by (simp add: set_drop_subset)
  then show ?thesis unfolding objects_def by auto
qed

lemma objects_prefix: "k \<le> n \<Longrightarrow> set (objects m 0 k) \<subseteq> set (objects m 0 n)"
  unfolding objects_def using set_take_subset_set_take[of k n m] by auto

text \<open>A reallocating \<open>Emplace\<close> returns when the constructors it needs do not throw.\<close>

lemma Emplace_grows:
  assumes v: "valid v" and k: "k \<le> size' v" and full: "Capacity v \<le> size' v"
    and f: "fits T (max 1 (2 * size' v))"
    and na: "\<not> throws T (constructor_of a) (value_of a)"
    and nt: "\<forall>x \<in> set (elements v). \<not> throws T (transfer_member T) x"
  shows "fst (Emplace T v k a) = Returned k"
proof -
  let ?n = "size' v" and ?x = "value_of a" and ?c = "constructor_of a"
  let ?g = "max 1 (2 * ?n)"
  from v have len: "?n \<le> length (slots v)" and lv: "live (slots v) 0 ?n"
    by (simp_all add: valid_def live_def)
  have g: "grown ?n = ?g" by (rule grown_fits[OF f])
  have al: "Allocate T ?g = replicate ?g None" by (rule Allocate_fits[OF f])
  have lt: "?n < ?g" by (simp add: max_def)
  let ?nd1 = "(replicate ?g None)[k := Some ?x]"
  have c1: "construct_at T ?c (Allocate T (grown ?n)) k ?x = (Returned (), ?nd1, [Call ?c])"
    unfolding g al using lt k na by (simp add: construct_at_def)
  from objects_prefix[OF k, of "slots v"] nt
  have nt1: "\<forall>x \<in> set (objects (slots v) 0 k). \<not> throws T (transfer_member T) x"
    by (auto simp: elements_def)
  from objects_slice[of "slots v" k "?n - k"] k nt
  have nt2: "\<forall>x \<in> set (objects (slots v) k (?n - k)). \<not> throws T (transfer_member T) x"
    by (auto simp: elements_def)
  have "fst (transfer_n T (slots v) 0 k ?nd1 0) = Returned ()"
    using k lt nt1 live_slice(1)[OF lv k] by (intro transfer_n_progress) simp_all
  then obtain d2 nd2 e2 where t1: "transfer_n T (slots v) 0 k ?nd1 0 = (Returned (), d2, nd2, e2)"
    by (cases "transfer_n T (slots v) 0 k ?nd1 0") auto
  note T1 = transfer_n_Returned[OF t1]
  from T1 have dd2: "drop k d2 = drop k (slots v)" and ld2: "length d2 = length (slots v)"
    by simp_all
  from transfer_n_length[OF t1] have lnd2: "length nd2 = ?g" by simp
  from dd2 have ob: "objects d2 k (?n - k) = objects (slots v) k (?n - k)" by (simp add: objects_def)
  have "live d2 k (?n - k)"
    using live_slice(2)[OF lv k] by (simp add: live_def dd2 ld2)
  then have "fst (transfer_n T d2 k (?n - k) nd2 (k + 1)) = Returned ()"
    using k lt nt2 lnd2 by (intro transfer_n_progress) (simp_all add: ob)
  then obtain d3 nd3 e3 where t2: "transfer_n T d2 k (?n - k) nd2 (k + 1) = (Returned (), d3, nd3, e3)"
    by (cases "transfer_n T d2 k (?n - k) nd2 (k + 1)") auto
  obtain d4 e4 where d4: "destroy_n d3 0 ?n = (d4, e4)" by (cases "destroy_n d3 0 ?n")
  from full k c1 t1 t2 d4 show ?thesis
    by (simp add: Emplace_def RawMemory_new_def cbegin_def cend_def)
qed

section \<open>Copy assignment\<close>













section \<open>Move construction and move assignment\<close>

lemma Swap_distinct:
  assumes "this \<noteq> other"
  shows "Swap s this other this = s other" and "Swap s this other other = s this"
    and "a \<noteq> this \<Longrightarrow> a \<noteq> other \<Longrightarrow> Swap s this other a = s a"
  using assms by (simp_all add: Swap_def RawMemory_Swap_def)

text \<open>
  Claim C2, as amended. Move-constructing \<open>A\<close> from \<open>B\<close> gives \<open>A\<close> the members, hence
  the elements, of \<open>B\<close> and leaves \<open>B\<close> the default vector: no block, size \<open>0\<close>, and the
  invariant holds. Move-assigning \<open>B\<close> (at \<open>rhs\<close>) to a distinct \<open>A\<close> (at \<open>this\<close>) swaps
  the two: \<open>A\<close> holds what \<open>B\<close> held and \<open>B\<close> holds what \<open>A\<close> held, so \<open>B\<close> has the
  former size of \<open>A\<close> and is valid if \<open>A\<close> was; no other vector changes. Move-assigning a
  vector to itself changes nothing.
\<close>

theorem move_semantics:
  "(this \<noteq> rhs \<longrightarrow>
      move_assignment s this rhs this = s rhs \<and> move_assignment s this rhs rhs = s this \<and>
      elements (move_assignment s this rhs this) = elements (s rhs) \<and>
      size' (move_assignment s this rhs rhs) = size' (s this) \<and>
      (valid (s this) \<longrightarrow> valid (move_assignment s this rhs rhs)) \<and>
      (\<forall>a. a \<noteq> this \<and> a \<noteq> rhs \<longrightarrow> move_assignment s this rhs a = s a))
   \<and> move_assignment s this this = s
   \<and> fst (Vector_move other) = other
   \<and> elements (fst (Vector_move other)) = elements other
   \<and> snd (Vector_move other) = Vector_default
   \<and> size' (snd (Vector_move other)) = 0
   \<and> Capacity (snd (Vector_move other)) = 0
   \<and> invariant (snd (Vector_move other))"
proof (intro conjI impI allI)
  assume ne: "this \<noteq> rhs"
  then have m: "move_assignment s this rhs = Swap s this rhs" by (simp add: move_assignment_def)
  show a: "move_assignment s this rhs this = s rhs" by (simp add: m Swap_distinct(1)[OF ne])
  show b: "move_assignment s this rhs rhs = s this" by (simp add: m Swap_distinct(2)[OF ne])
  show "elements (move_assignment s this rhs this) = elements (s rhs)" by (simp add: a)
  show "size' (move_assignment s this rhs rhs) = size' (s this)" by (simp add: b)
  show "valid (move_assignment s this rhs rhs)" if "valid (s this)" using that by (simp add: b)
  show "move_assignment s this rhs a = s a" if "a \<noteq> this \<and> a \<noteq> rhs" for a
    using that by (simp add: m Swap_distinct(3)[OF ne])
next
  show "move_assignment s this this = s" by (simp add: move_assignment_def)
  show "fst (Vector_move other) = other" by (simp add: Vector_move_def RawMemory_move_def)
  then show "elements (fst (Vector_move other)) = elements other" by simp
  show d: "snd (Vector_move other) = Vector_default"
    by (simp add: Vector_move_def RawMemory_move_def Vector_default_def)
  show "size' (snd (Vector_move other)) = 0" by (simp add: d Vector_default_def)
  show "Capacity (snd (Vector_move other)) = 0"
    by (simp add: d Vector_default_def RawMemory_default_def Capacity_def RawMemory_Capacity_def)
  show "invariant (snd (Vector_move other))"
    by (simp add: d Vector_default_def RawMemory_default_def invariant_def valid_def live_def)
qed

theorem move_semantics_witness:
  "(0::nat) \<noteq> 1
   \<and> move_assignment two_vectors 0 1 0 = two_vectors 1
   \<and> move_assignment two_vectors 0 1 1 = two_vectors 0
   \<and> elements (move_assignment two_vectors 0 1 0) = elements (two_vectors 1)
   \<and> size' (move_assignment two_vectors 0 1 1) = size' (two_vectors 0)
   \<and> valid (two_vectors 0) \<and> valid (move_assignment two_vectors 0 1 1)
   \<and> move_assignment two_vectors 0 1 2 = two_vectors 2"
proof -
  have ne: "(0::nat) \<noteq> 1" by simp
  have "two_vectors 0 = vec [Some 1] 1"
    by (simp add: two_vectors_def del: One_nat_def)
  moreover have "valid (vec [Some (1::nat)] 1)" by code_simp
  ultimately have v0: "valid (two_vectors 0)" by simp
  have two: "(2::nat) \<noteq> 0 \<and> (2::nat) \<noteq> 1" by simp
  from move_semantics[of 0 1 two_vectors] ne
  have "move_assignment two_vectors 0 1 0 = two_vectors 1"
    and "move_assignment two_vectors 0 1 1 = two_vectors 0"
    and "elements (move_assignment two_vectors 0 1 0) = elements (two_vectors 1)"
    and "size' (move_assignment two_vectors 0 1 1) = size' (two_vectors 0)"
    and "valid (two_vectors 0) \<longrightarrow> valid (move_assignment two_vectors 0 1 1)"
    and "\<forall>a. a \<noteq> 0 \<and> a \<noteq> 1 \<longrightarrow> move_assignment two_vectors 0 1 a = two_vectors a"
    by blast+
  with ne v0 two show ?thesis by blast
qed

text \<open>
  Claim C2 as stated fails for move assignment: after \<open>A = std::move(B)\<close> with \<open>A = [1]\<close>
  and \<open>B = [2, 3]\<close>, \<open>A\<close> holds \<open>[2, 3]\<close> but \<open>B\<close> holds \<open>[1]\<close>, of size \<open>1\<close>.
\<close>

theorem move_assignment_counterexample:
  "elements (move_assignment two_vectors 0 1 0) = [2, 3]
   \<and> elements (move_assignment two_vectors 0 1 1) = [1]
   \<and> \<not> size' (move_assignment two_vectors 0 1 1) = 0"
proof -
  have ne: "(0::nat) \<noteq> 1" by simp
  have s0: "two_vectors 0 = vec [Some 1] 1"
    and s1: "two_vectors 1 = vec [Some 2, Some 3] 2"
    by (simp_all add: two_vectors_def del: One_nat_def)
  have a: "move_assignment two_vectors 0 1 0 = vec [Some 2, Some 3] 2"
    and b: "move_assignment two_vectors 0 1 1 = vec [Some 1] 1"
    using ne by (simp_all add: move_assignment_def Swap_def RawMemory_Swap_def s0 s1 vec_def del: One_nat_def)
  show ?thesis unfolding a b by (simp add: elements_def objects_def vec_def)
qed

section \<open>Where the code departs from the specification\<close>

text \<open>
  Claim C5 fails on the code. \<open>Erase\<close> destroys the object at the erased position, then
  move-assigns every later element one slot down, the first of them onto the slot whose
  object it has just destroyed, and decrements \<open>size_\<close>; the object in the old last slot,
  now moved from, is never destroyed. Take the two-element vector \<open>[1, 2]\<close> (capacity 2),
  which satisfies the invariant, and erase its first element. For an element type like
  \<open>std::string\<close> the assignment to the destroyed slot has no defined result, so the
  operation establishes nothing. For an element type like \<open>int\<close> the call returns with
  size \<open>1\<close> and an object left in slot \<open>1\<close>, so the slots from \<open>size_\<close> on are not raw
  memory; the destructor of the vector then releases the block with that object in it.
\<close>

theorem Erase_breaks_invariant:
  "invariant (vec [Some (1::nat), Some 2] 2)
   \<and> Erase text_like (vec [Some 1, Some 2] 2) 0 = (Abort, vec [Some 1, Some 2] 2, [Call Dtor])
   \<and> Erase plain (vec [Some 1, Some 2] 2) 0 =
       (Returned 0, vec [Some 2, Some 2] 1, [Call Dtor, Call MoveAssign])
   \<and> \<not> invariant (vec [Some (2::nat), Some 2] 1)
   \<and> Vector_dtor (vec [Some (2::nat), Some 2] 1) = [Call Dtor, Leak]"
  by code_simp

text \<open>
  Claim C1 fails on the code. In the reallocating branch of \<open>Emplace\<close> the handler of the
  prefix transfer destroys the new element, but the handler of the suffix transfer destroys
  only the prefix \<open>[0, offset)\<close> of the new block: the new element at \<open>offset\<close> is still
  alive when the block is released. For the full vector \<open>[1, 7]\<close> of an element type whose
  copy of \<open>7\<close> throws, \<open>Emplace\<close> of \<open>5\<close> at offset \<open>1\<close> copies the prefix, fails in the
  suffix, destroys the prefix and leaks the new element; the vector itself is unchanged. At
  offset \<open>1\<close> of \<open>[7, 1]\<close> the prefix transfer fails and nothing is leaked.
\<close>

theorem Emplace_leaks_new_element:
  "Capacity (vec [Some (1::nat), Some 7] 2) \<le> 2
   \<and> Emplace fragile (vec [Some 1, Some 7] 2) 1 (Args 5) =
       (Threw, vec [Some 1, Some 7] 2,
        [Call ArgsCtor, Call CopyCtor, Call CopyCtor, Call Dtor, Leak])
   \<and> Emplace fragile (vec [Some 7, Some 1] 2) 1 (Args 5) =
       (Threw, vec [Some 7, Some 1] 2,
        [Call ArgsCtor, Call CopyCtor, Call Dtor])"
  by code_simp

text \<open>
  Claim C10 fails on the code, by the defect of claim C5. For a vector \<open>[1, 2, 3]\<close> of
  capacity 4 and an element type like \<open>std::string\<close>, \<open>Erase\<close> at offset \<open>1\<close> destroys
  the object in slot \<open>1\<close> and then move-assigns slot \<open>2\<close> to slot \<open>1\<close>: the first step of
  \<open>std::move\<close> calls \<open>operator=\<close> on the destroyed object, and the call has no defined
  result, so it returns no iterator. Only the last element can be erased; for an element type
  like \<open>int\<close> the call returns offset \<open>1\<close>, where the former successor \<open>3\<close> now is.
\<close>

theorem Erase_assigns_to_destroyed_object:
  "valid (vec [Some (1::nat), Some 2, Some 3, None] 3)
   \<and> destroy_at [Some (1::nat), Some 2, Some 3, None] 1 = ([Some 1, None, Some 3, None], [Call Dtor])
   \<and> move_assign text_like [Some 1, None, Some 3, None] 2 1 = (Abort, [Some 1, None, Some 3, None], [])
   \<and> Erase text_like (vec [Some 1, Some 2, Some 3, None] 3) 1 =
       (Abort, vec [Some 1, Some 2, Some 3, None] 3, [Call Dtor])
   \<and> Erase text_like (vec [Some 1, Some 2, Some 3, None] 3) 2 =
       (Returned 2, vec [Some 1, Some 2, None, None] 2, [Call Dtor])
   \<and> Erase plain (vec [Some 1, Some 2, Some 3, None] 3) 1 =
       (Returned 1, vec [Some 1, Some 3, Some 3, None] 2, [Call Dtor, Call MoveAssign])
   \<and> at_index (vec [Some (1::nat), Some 3, Some 3, None] 2) 1 = Returned 3"
  by code_simp

text \<open>
  Claim C6 fails on the code, by the same defect. For the full vector \<open>[1, 2]\<close> of an
  element type like \<open>std::string\<close>, \<open>Insert\<close> of \<open>9\<close> at offset \<open>0\<close> returns with
  \<open>[9, 1, 2]\<close>, and \<open>Erase\<close> at offset \<open>0\<close> then assigns to the object it has destroyed:
  the pair of calls has no defined result and does not give back \<open>[1, 2]\<close>. At offset \<open>2\<close>,
  the end, nothing is shifted and the original elements come back; so they do at offset
  \<open>0\<close> for an element type like \<open>int\<close>. The overload of \<open>Insert\<close> that takes an
  rvalue leaves the same vector.
\<close>

theorem Insert_then_Erase_undefined:
  "valid (vec [Some (1::nat), Some 2] 2)
   \<and> Insert text_like (vec [Some 1, Some 2] 2) 0 9 =
       (Returned 0, vec [Some 9, Some 1, Some 2, None] 3,
        [Call CopyCtor, Call MoveCtor, Call MoveCtor, Call Dtor, Call Dtor])
   \<and> Erase text_like (vec [Some 9, Some 1, Some 2, None] 3) 0 =
       (Abort, vec [Some 9, Some 1, Some 2, None] 3, [Call Dtor])
   \<and> Insert text_like (vec [Some 1, Some 2] 2) 2 9 =
       (Returned 2, vec [Some 1, Some 2, Some 9, None] 3,
        [Call CopyCtor, Call MoveCtor, Call MoveCtor, Call Dtor, Call Dtor])
   \<and> Erase text_like (vec [Some 1, Some 2, Some 9, None] 3) 2 =
       (Returned 2, vec [Some 1, Some 2, None, None] 2, [Call Dtor])
   \<and> elements (vec [Some (1::nat), Some 2, None, None] 2) = elements (vec [Some 1, Some 2] 2)
   \<and> Insert plain (vec [Some 1, Some 2] 2) 0 9 =
       (Returned 0, vec [Some 9, Some 1, Some 2, None] 3,
        [Call CopyCtor, Call MoveCtor, Call MoveCtor, Call Dtor, Call Dtor])
   \<and> Erase plain (vec [Some 9, Some 1, Some 2, None] 3) 0 =
       (Returned 0, vec [Some 1, Some 2, Some 2, None] 2,
        [Call Dtor, Call MoveAssign, Call MoveAssign])
   \<and> elements (vec [Some (1::nat), Some 2, Some 2, None] 2) = elements (vec [Some 1, Some 2] 2)
   \<and> Insert_rvalue text_like (vec [Some 1, Some 2] 2) 0 9 =
       (Returned 0, vec [Some 9, Some 1, Some 2, None] 3,
        [Call MoveCtor, Call MoveCtor, Call MoveCtor, Call Dtor, Call Dtor])"
  by code_simp

section \<open>Claim C9: what Reserve changes\<close>




section \<open>Claim C8: what Resize constructs and destroys\<close>




section \<open>Claim C3: capacities of a sequence of appends\<close>

text \<open>
  Claim C3. Start from a default-constructed vector and append with \<open>PushBack\<close> and
  \<open>EmplaceBack\<close> in any order, with arguments of any kind. After each append the capacity is
  at least the size and is the number of slots the block really has, and once the vector is
  not empty the capacity is a power of two \<open>2 ^ k\<close>
  with \<open>2 ^ k < 2 * size\<close>, the least one that holds the elements: as the size goes through
  1, 2, 3, ... the capacity goes through 1, 2, 4, 8, ... . When every append returns, the
  sizes are 1, 2, ..., N. An append or an \<open>Emplace\<close> that returns and found no room
  (\<open>size_ >= Capacity()\<close>) leaves the capacity \<open>max(1, 2 * size)\<close>. Every append does
  return, and the vector then holds the appended values in order in a block of
  \<open>Capacity()\<close> slots, when no constructor call that is needed throws (the one that builds
  each new element from its argument, and the one that transfers it when the storage grows)
  and the byte size of \<open>2 * N\<close> elements is a \<open>size_t\<close> value.
\<close>

theorem append_capacities:
  "(\<forall>(ok, w) \<in> set (append_steps T Vector_default as).
       size' w \<le> Capacity w \<and> Capacity w = length (slots w) \<and>
       (0 < size' w \<longrightarrow> (\<exists>k. Capacity w = 2 ^ k \<and> 2 ^ k < 2 * size' w)))
   \<and> (list_all fst (append_steps T Vector_default as) \<longrightarrow>
        map (\<lambda>(ok, w). size' w) (append_steps T Vector_default as) = [1..<Suc (length as)])
   \<and> (Capacity v \<le> size' v \<and> fst (append_step T v a) \<longrightarrow>
        Capacity (snd (append_step T v a)) = max 1 (2 * size' v))
   \<and> (Capacity v \<le> size' v \<and> Emplace T v pos x = (Returned p, v', e) \<longrightarrow>
        Capacity v' = max 1 (2 * size' v))
   \<and> (fits T (2 * length as) \<and>
        (\<forall>a \<in> set as. \<not> throws T (constructor_of (appended a)) (value_of (appended a)) \<and>
           \<not> throws T (transfer_member T) (value_of (appended a))) \<longrightarrow>
        list_all fst (append_steps T Vector_default as) \<and>
        valid (after_appends T Vector_default as) \<and>
        elements (after_appends T Vector_default as) = map (\<lambda>a. value_of (appended a)) as)"
proof (intro conjI)
  show "\<forall>(ok, w) \<in> set (append_steps T Vector_default as).
       size' w \<le> Capacity w \<and> Capacity w = length (slots w) \<and>
       (0 < size' w \<longrightarrow> (\<exists>k. Capacity w = 2 ^ k \<and> 2 ^ k < 2 * size' w))"
  proof (intro ballI, clarify)
    fix ok w
    assume w: "(ok, w) \<in> set (append_steps T Vector_default as)"
    then have "doubled w" by (rule appends_doubled[OF doubled_default])
    moreover have "capacity' (data' (Vector_default :: 'a Vector)) =
        length (slots (Vector_default :: 'a Vector))"
      by (simp add: Vector_default_def RawMemory_default_def)
    from appends_block[OF this w] have "Capacity w = length (slots w)"
      by (simp add: Capacity_def RawMemory_Capacity_def)
    ultimately show "size' w \<le> Capacity w \<and> Capacity w = length (slots w) \<and>
        (0 < size' w \<longrightarrow> (\<exists>k. Capacity w = 2 ^ k \<and> 2 ^ k < 2 * size' w))"
      by (auto simp: doubled_def)
  qed
  show "list_all fst (append_steps T Vector_default as) \<longrightarrow>
        map (\<lambda>(ok, w). size' w) (append_steps T Vector_default as) = [1..<Suc (length as)]"
    using appends_sizes[of T Vector_default as] by (simp add: Vector_default_def)
  show "Capacity v \<le> size' v \<and> fst (append_step T v a) \<longrightarrow>
        Capacity (snd (append_step T v a)) = max 1 (2 * size' v)"
    using append_size_capacity[of T v a "fst (append_step T v a)" "snd (append_step T v a)"] by simp
  show "Capacity v \<le> size' v \<and> Emplace T v pos x = (Returned p, v', e) \<longrightarrow>
        Capacity v' = max 1 (2 * size' v)"
    using Emplace_growth[of T v pos x p v' e] by simp
  show "fits T (2 * length as) \<and>
        (\<forall>a \<in> set as. \<not> throws T (constructor_of (appended a)) (value_of (appended a)) \<and>
           \<not> throws T (transfer_member T) (value_of (appended a))) \<longrightarrow>
        list_all fst (append_steps T Vector_default as) \<and>
        valid (after_appends T Vector_default as) \<and>
        elements (after_appends T Vector_default as) = map (\<lambda>a. value_of (appended a)) as"
  proof
    assume a: "fits T (2 * length as) \<and>
        (\<forall>a \<in> set as. \<not> throws T (constructor_of (appended a)) (value_of (appended a)) \<and>
           \<not> throws T (transfer_member T) (value_of (appended a)))"
    have d: "valid (Vector_default :: 'a Vector)" "elements (Vector_default :: 'a Vector) = []"
      "size' (Vector_default :: 'a Vector) = 0"
      by (simp_all add: Vector_default_def RawMemory_default_def valid_def live_def
          elements_def objects_def)
    from a d have f0: "fits T (2 * (size' (Vector_default :: 'a Vector) + length as))" by simp
    have nt0: "\<forall>x \<in> set (elements (Vector_default :: 'a Vector)). \<not> throws T (transfer_member T) x"
      by (simp add: d(2))
    from a have rest: "\<forall>a \<in> set as. \<not> throws T (constructor_of (appended a)) (value_of (appended a)) \<and>
           \<not> throws T (transfer_member T) (value_of (appended a))"
      by simp
    from appends_progress[OF d(1) nt0 rest f0] d(2)
    show "list_all fst (append_steps T Vector_default as) \<and>
        valid (after_appends T Vector_default as) \<and>
        elements (after_appends T Vector_default as) = map (\<lambda>a. value_of (appended a)) as"
      by simp
  qed
qed

theorem append_capacities_witness:
  "fits plain (2 * length [Push (Lvalue 1), Emplaced (Args 2), Push (Rvalue 3), Push (Lvalue 4),
      Emplaced (Rvalue (5::nat))])
   \<and> list_all (\<lambda>a. \<not> throws plain (constructor_of (appended a)) (value_of (appended a)) \<and>
           \<not> throws plain (transfer_member plain) (value_of (appended a)))
        [Push (Lvalue 1), Emplaced (Args 2), Push (Rvalue 3), Push (Lvalue 4), Emplaced (Rvalue 5)]
   \<and> list_all fst (append_steps plain Vector_default
        [Push (Lvalue 1), Emplaced (Args 2), Push (Rvalue 3), Push (Lvalue 4), Emplaced (Rvalue 5)])
   \<and> elements (after_appends plain Vector_default
        [Push (Lvalue 1), Emplaced (Args 2), Push (Rvalue 3), Push (Lvalue 4), Emplaced (Rvalue 5)]) =
       [1, 2, 3, 4, 5]
   \<and> map (\<lambda>(ok, w). size' w) (append_steps plain Vector_default
        [Push (Lvalue 1), Emplaced (Args 2), Push (Rvalue 3), Push (Lvalue 4), Emplaced (Rvalue 5)]) =
       [1, 2, 3, 4, 5]
   \<and> map (\<lambda>(ok, w). Capacity w) (append_steps plain Vector_default
        [Push (Lvalue 1), Emplaced (Args 2), Push (Rvalue 3), Push (Lvalue 4), Emplaced (Rvalue 5)]) =
       [1, 2, 4, 4, 8]
   \<and> Capacity (vec [Some (1::nat), Some 2] 2) \<le> size' (vec [Some (1::nat), Some 2] 2)
   \<and> append_step plain (vec [Some 1, Some 2] 2) (Push (Lvalue 3)) =
       (True, vec [Some 1, Some 2, Some 3, None] 3)
   \<and> Capacity (vec [Some (1::nat), Some 2, Some 3, None] 3) = 4
   \<and> Emplace plain (vec [Some 1, Some 2] 2) 1 (Args 9) =
       (Returned 1, vec [Some 1, Some 9, Some 2, None] 3,
        [Call ArgsCtor, Call MoveCtor, Call MoveCtor, Call Dtor, Call Dtor])"
proof -
  let ?as = "[Push (Lvalue 1), Emplaced (Args 2), Push (Rvalue 3), Push (Lvalue 4),
      Emplaced (Rvalue (5::nat))]"
  have f: "fits plain (2 * length ?as)" by code_simp
  have nt: "list_all (\<lambda>a. \<not> throws plain (constructor_of (appended a)) (value_of (appended a)) \<and>
           \<not> throws plain (transfer_member plain) (value_of (appended a))) ?as"
    by code_simp
  then have nt': "\<forall>a \<in> set ?as. \<not> throws plain (constructor_of (appended a)) (value_of (appended a)) \<and>
           \<not> throws plain (transfer_member plain) (value_of (appended a))"
    by (simp only: list_all_iff)
  have vals: "map (\<lambda>a. value_of (appended a)) ?as = [1, 2, 3, 4, 5]" by code_simp
  have "list_all fst (append_steps plain Vector_default ?as) \<and>
        valid (after_appends plain Vector_default ?as) \<and>
        elements (after_appends plain Vector_default ?as) = map (\<lambda>a. value_of (appended a)) ?as"
    using append_capacities[of plain ?as, THEN conjunct2, THEN conjunct2, THEN conjunct2,
        THEN conjunct2] f nt'
    by blast
  then have all: "list_all fst (append_steps plain Vector_default ?as)"
    and els: "elements (after_appends plain Vector_default ?as) = [1, 2, 3, 4, 5]"
    by (simp_all only: vals)
  have "map (\<lambda>(ok, w). size' w) (append_steps plain Vector_default ?as) = [1..<Suc (length ?as)]"
    using append_capacities[of plain ?as, THEN conjunct2, THEN conjunct1] all by blast
  also have "\<dots> = [1, 2, 3, 4, 5]" by code_simp
  finally have sizes: "map (\<lambda>(ok, w). size' w) (append_steps plain Vector_default ?as) =
      [1, 2, 3, 4, 5]" .
  have caps: "map (\<lambda>(ok, w). Capacity w) (append_steps plain Vector_default ?as) = [1, 2, 4, 4, 8]"
    by code_simp
  have full: "Capacity (vec [Some (1::nat), Some 2] 2) \<le> size' (vec [Some (1::nat), Some 2] 2)"
    by code_simp
  have push: "append_step plain (vec [Some 1, Some 2] 2) (Push (Lvalue 3)) =
      (True, vec [Some 1, Some 2, Some 3, None] 3)"
    by code_simp
  have cap4: "Capacity (vec [Some (1::nat), Some 2, Some 3, None] 3) = 4" by code_simp
  have emplace: "Emplace plain (vec [Some 1, Some 2] 2) 1 (Args 9) =
       (Returned 1, vec [Some 1, Some 9, Some 2, None] 3,
        [Call ArgsCtor, Call MoveCtor, Call MoveCtor, Call Dtor, Call Dtor])"
    by code_simp
  from f nt all els sizes caps full push cap4 emplace show ?thesis by (intro conjI)
qed

section \<open>Claim C4: how existing elements are transferred\<close>

text \<open>
  Claim C4. Whenever the existing elements go to new storage, in a \<open>PushBack\<close>,
  \<open>EmplaceBack\<close> or \<open>Emplace\<close> that finds no room and in a \<open>Reserve\<close> above the
  capacity, they are transferred by the move constructor if \<open>T\<close> is nothrow move
  constructible or not copy constructible, and by the copy constructor otherwise. In the
  three operations that add an element, the first call of the trace builds the new element
  from the argument, by the constructor the argument selects; in the calls after it (for
  \<open>Reserve\<close>, in all calls) the constructor the rule excludes is not called at all, whatever
  the outcome, and when the operation returns the selected one was called once for each of
  the \<open>size_\<close> elements. In particular, for a copy-constructible type whose move
  constructor may throw, no element is transferred by the move constructor. The operations
  do return, with the old elements in place, for a valid vector when the byte size of the new
  capacity is a \<open>size_t\<close> value and neither the construction of the new element nor the
  selected constructor on an existing element throws.
\<close>

theorem transfer_rule:
  "(Capacity v \<le> size' v \<and> PushBack T v a = (r, v', e) \<longrightarrow>
      (r \<noteq> Abort \<longrightarrow> take 1 e = [Call (constructor_of a)]) \<and>
      transferred_by_rule T (size' v) (r = Returned ()) (drop 1 e))
   \<and> (Capacity v \<le> size' v \<and> EmplaceBack T v a = (rb, vb, eb) \<longrightarrow>
      (rb \<noteq> Abort \<longrightarrow> take 1 eb = [Call (constructor_of a)]) \<and>
      transferred_by_rule T (size' v) (rb = Returned (value_of a)) (drop 1 eb))
   \<and> (Capacity v \<le> size' v \<and> Emplace T v pos a = (rp, vp, ep) \<longrightarrow>
      (rp \<noteq> Abort \<longrightarrow> take 1 ep = [Call (constructor_of a)]) \<and>
      transferred_by_rule T (size' v) (rp = Returned pos) (drop 1 ep))
   \<and> (Capacity v < c \<and> Reserve T v c = (rr, vr, er) \<longrightarrow>
      transferred_by_rule T (size' v) (rr = Returned ()) er)
   \<and> (\<not> nothrow_move_constructible T \<and> copy_constructible T \<and>
        transferred_by_rule T n returned e' \<longrightarrow> count_list e' (Call MoveCtor) = 0)
   \<and> (valid v \<and> Capacity v \<le> size' v \<and> fits T (max 1 (2 * size' v)) \<and>
        \<not> throws T (constructor_of a) (value_of a) \<and>
        (\<forall>x \<in> set (elements v). \<not> throws T (transfer_member T) x) \<longrightarrow>
      fst (PushBack T v a) = Returned () \<and>
      elements (fst (snd (PushBack T v a))) = elements v @ [value_of a] \<and>
      fst (EmplaceBack T v a) = Returned (value_of a) \<and>
      elements (fst (snd (EmplaceBack T v a))) = elements v @ [value_of a] \<and>
      (pos \<le> size' v \<longrightarrow> fst (Emplace T v pos a) = Returned pos))
   \<and> (valid v \<and> Capacity v < c \<and> fits T c \<and>
        (\<forall>x \<in> set (elements v). \<not> throws T (transfer_member T) x) \<longrightarrow>
      fst (Reserve T v c) = Returned () \<and> elements (fst (snd (Reserve T v c))) = elements v)"
proof (intro conjI impI)
  assume a: "Capacity v \<le> size' v \<and> PushBack T v a = (r, v', e)"
  then show "transferred_by_rule T (size' v) (r = Returned ()) (drop 1 e)"
    using PushBack_rule(1)[of T v a r v' e] by simp
  show "take 1 e = [Call (constructor_of a)]" if "r \<noteq> Abort"
    using a that PushBack_rule(2)[of T v a r v' e] by simp
next
  assume a: "Capacity v \<le> size' v \<and> EmplaceBack T v a = (rb, vb, eb)"
  then show "transferred_by_rule T (size' v) (rb = Returned (value_of a)) (drop 1 eb)"
    using EmplaceBack_rule(1)[of T v a rb vb eb] by simp
  show "take 1 eb = [Call (constructor_of a)]" if "rb \<noteq> Abort"
    using a that EmplaceBack_rule(2)[of T v a rb vb eb] by simp
next
  assume a: "Capacity v \<le> size' v \<and> Emplace T v pos a = (rp, vp, ep)"
  then show "transferred_by_rule T (size' v) (rp = Returned pos) (drop 1 ep)"
    using Emplace_rule(1)[of T v pos a rp vp ep] by simp
  show "take 1 ep = [Call (constructor_of a)]" if "rp \<noteq> Abort"
    using a that Emplace_rule(2)[of T v pos a rp vp ep] by simp
next
  assume "Capacity v < c \<and> Reserve T v c = (rr, vr, er)"
  then show "transferred_by_rule T (size' v) (rr = Returned ()) er"
    using Reserve_rule[of T v c rr vr er] by simp
next
  assume "\<not> nothrow_move_constructible T \<and> copy_constructible T \<and>
        transferred_by_rule T n returned e'"
  then show "count_list e' (Call MoveCtor) = 0" by (simp add: transferred_by_rule_def)
next
  assume a: "valid v \<and> Capacity v \<le> size' v \<and> fits T (max 1 (2 * size' v)) \<and>
        \<not> throws T (constructor_of a) (value_of a) \<and>
        (\<forall>x \<in> set (elements v). \<not> throws T (transfer_member T) x)"
  then have v: "valid v" and full: "Capacity v \<le> size' v"
    and f: "fits T (max 1 (2 * size' v))"
    and na: "\<not> throws T (constructor_of a) (value_of a)"
    and nt: "\<forall>x \<in> set (elements v). \<not> throws T (transfer_member T) x"
    by simp_all
  from f have f': "Capacity v \<le> size' v \<longrightarrow> fits T (max 1 (2 * size' v))" by simp
  from PushBack_appends[OF v f' na nt] obtain w e0 where
    p: "PushBack T v a = (Returned (), w, e0)" and w: "elements w = elements v @ [value_of a]"
    by blast
  from p show "fst (PushBack T v a) = Returned ()" by simp
  from p w show "elements (fst (snd (PushBack T v a))) = elements v @ [value_of a]" by simp
  from p show "fst (EmplaceBack T v a) = Returned (value_of a)"
    by (simp add: EmplaceBack_PushBack)
  from p w show "elements (fst (snd (EmplaceBack T v a))) = elements v @ [value_of a]"
    by (simp add: EmplaceBack_PushBack)
  show "fst (Emplace T v pos a) = Returned pos" if "pos \<le> size' v"
    using Emplace_grows[OF v that full f na nt] .
next
  assume a: "valid v \<and> Capacity v < c \<and> fits T c \<and>
        (\<forall>x \<in> set (elements v). \<not> throws T (transfer_member T) x)"
  then have r: "fst (Reserve T v c) = Returned ()" using Reserve_progress by blast
  then show "fst (Reserve T v c) = Returned ()" .
  from r obtain w e0 where p: "Reserve T v c = (Returned (), w, e0)"
    by (cases "Reserve T v c") auto
  from a Reserve_kept(3)[OF p] show "elements (fst (snd (Reserve T v c))) = elements v"
    by (simp add: p)
qed

theorem transfer_rule_witness:
  "valid (vec [Some (1::nat), Some 2] 2)
   \<and> Capacity (vec [Some (1::nat), Some 2] 2) \<le> size' (vec [Some (1::nat), Some 2] 2)
   \<and> fits fragile (max 1 (2 * size' (vec [Some (1::nat), Some 2] 2)))
   \<and> \<not> throws fragile (constructor_of (Lvalue 3)) (value_of (Lvalue 3))
   \<and> list_all (\<lambda>x. \<not> throws fragile (transfer_member fragile) x)
        (elements (vec [Some (1::nat), Some 2] 2))
   \<and> PushBack fragile (vec [Some 1, Some 2] 2) (Lvalue 3) =
       (Returned (), vec [Some 1, Some 2, Some 3, None] 3,
        [Call CopyCtor, Call CopyCtor, Call CopyCtor, Call Dtor, Call Dtor])
   \<and> transferred_by_rule fragile 2 True [Call CopyCtor, Call CopyCtor, Call Dtor, Call Dtor]
   \<and> count_list [Call CopyCtor, Call CopyCtor, Call Dtor, Call Dtor] (Call MoveCtor) = 0
   \<and> PushBack text_like (vec [Some 1, Some 2] 2) (Lvalue 3) =
       (Returned (), vec [Some 1, Some 2, Some 3, None] 3,
        [Call CopyCtor, Call MoveCtor, Call MoveCtor, Call Dtor, Call Dtor])
   \<and> transferred_by_rule text_like 2 True [Call MoveCtor, Call MoveCtor, Call Dtor, Call Dtor]
   \<and> EmplaceBack fragile (vec [Some 1, Some 2] 2) (Lvalue 3) =
       (Returned 3, vec [Some 1, Some 2, Some 3, None] 3,
        [Call CopyCtor, Call CopyCtor, Call CopyCtor, Call Dtor, Call Dtor])
   \<and> elements (vec [Some (1::nat), Some 2, Some 3, None] 3) =
       elements (vec [Some 1, Some 2] 2) @ [value_of (Lvalue 3)]
   \<and> Emplace fragile (vec [Some 1, Some 2] 2) 1 (Lvalue 3) =
       (Returned 1, vec [Some 1, Some 3, Some 2, None] 3,
        [Call CopyCtor, Call CopyCtor, Call CopyCtor, Call Dtor, Call Dtor])
   \<and> Capacity (vec [Some (1::nat), Some 2] 2) < 4 \<and> fits fragile 4
   \<and> Reserve fragile (vec [Some 1, Some 2] 2) 4 =
       (Returned (), vec [Some 1, Some 2, None, None] 2,
        [Call CopyCtor, Call CopyCtor, Call Dtor, Call Dtor])
   \<and> elements (vec [Some (1::nat), Some 2, None, None] 2) = elements (vec [Some 1, Some 2] 2)
   \<and> Reserve text_like (vec [Some 1, Some 2] 2) 4 =
       (Returned (), vec [Some 1, Some 2, None, None] 2,
        [Call MoveCtor, Call MoveCtor, Call Dtor, Call Dtor])
   \<and> PushBack fragile (vec [Some 1, Some 7] 2) (Lvalue 3) =
       (Threw, vec [Some 1, Some 7] 2,
        [Call CopyCtor, Call CopyCtor, Call CopyCtor, Call Dtor, Leak])
   \<and> transferred_by_rule fragile 2 False [Call CopyCtor, Call CopyCtor, Call Dtor, Leak]"
proof -
  let ?v = "vec [Some (1::nat), Some 2] 2" and ?w = "vec [Some (1::nat), Some 2, Some 3, None] 3"
  let ?t = "[Call CopyCtor, Call CopyCtor, Call CopyCtor, Call Dtor, Call Dtor]"
  have v: "valid ?v" and full: "Capacity ?v \<le> size' ?v"
    and f: "fits fragile (max 1 (2 * size' ?v))"
    and na: "\<not> throws fragile (constructor_of (Lvalue 3)) (value_of (Lvalue 3))"
    and nt: "list_all (\<lambda>x. \<not> throws fragile (transfer_member fragile) x) (elements ?v)"
    and lt: "Capacity ?v < 4" and f4: "fits fragile 4"
    by code_simp+
  from nt have nt': "\<forall>x \<in> set (elements ?v). \<not> throws fragile (transfer_member fragile) x"
    by (simp only: list_all_iff)
  have sz: "size' ?v = 2" and pos: "(1::nat) \<le> size' ?v" by code_simp+
  have dr: "drop 1 ?t = [Call CopyCtor, Call CopyCtor, Call Dtor, Call Dtor]"
    and dm: "drop 1 [Call CopyCtor, Call MoveCtor, Call MoveCtor, Call Dtor, Call Dtor] =
        [Call MoveCtor, Call MoveCtor, Call Dtor, Call Dtor]"
    and dl: "drop 1 [Call CopyCtor, Call CopyCtor, Call CopyCtor, Call Dtor, Leak] =
        [Call CopyCtor, Call CopyCtor, Call Dtor, Leak]"
    by simp_all
  have fr: "\<not> nothrow_move_constructible fragile \<and> copy_constructible fragile" by code_simp
  have copied: "PushBack fragile ?v (Lvalue 3) = (Returned (), ?w, ?t)" by code_simp
  have moved: "PushBack text_like ?v (Lvalue 3) =
       (Returned (), ?w, [Call CopyCtor, Call MoveCtor, Call MoveCtor, Call Dtor, Call Dtor])"
    by code_simp
  have emplaced: "EmplaceBack fragile ?v (Lvalue 3) = (Returned 3, ?w, ?t)" by code_simp
  have inserted: "Emplace fragile ?v 1 (Lvalue 3) =
       (Returned 1, vec [Some 1, Some 3, Some 2, None] 3, ?t)"
    by code_simp
  have reserved: "Reserve fragile ?v 4 =
       (Returned (), vec [Some 1, Some 2, None, None] 2,
        [Call CopyCtor, Call CopyCtor, Call Dtor, Call Dtor])"
    by code_simp
  have reserved_moving: "Reserve text_like ?v 4 =
       (Returned (), vec [Some 1, Some 2, None, None] 2,
        [Call MoveCtor, Call MoveCtor, Call Dtor, Call Dtor])"
    by code_simp
  have failed: "PushBack fragile (vec [Some 1, Some 7] 2) (Lvalue 3) =
       (Threw, vec [Some 1, Some 7] 2,
        [Call CopyCtor, Call CopyCtor, Call CopyCtor, Call Dtor, Leak])"
    by code_simp
  have full7: "Capacity (vec [Some (1::nat), Some 7] 2) \<le> size' (vec [Some (1::nat), Some 7] 2)"
    and sz7: "size' (vec [Some (1::nat), Some 7] 2) = 2"
    by code_simp+
  have "transferred_by_rule fragile (size' ?v) (Returned () = Returned ()) (drop 1 ?t)"
    using transfer_rule[where v = ?v and a = "Lvalue 3" and T = fragile and r = "Returned ()"
        and v' = ?w and e = ?t, THEN conjunct1] full copied
    by blast
  then have rule_copy: "transferred_by_rule fragile 2 True
      [Call CopyCtor, Call CopyCtor, Call Dtor, Call Dtor]"
    by (simp only: sz dr simp_thms)
  have "transferred_by_rule text_like (size' ?v) (Returned () = Returned ())
      (drop 1 [Call CopyCtor, Call MoveCtor, Call MoveCtor, Call Dtor, Call Dtor])"
    using transfer_rule[where v = ?v and a = "Lvalue 3" and T = text_like and r = "Returned ()"
        and v' = ?w and e = "[Call CopyCtor, Call MoveCtor, Call MoveCtor, Call Dtor, Call Dtor]",
        THEN conjunct1]
      full moved
    by blast
  then have rule_move: "transferred_by_rule text_like 2 True
      [Call MoveCtor, Call MoveCtor, Call Dtor, Call Dtor]"
    by (simp only: sz dm simp_thms)
  have "transferred_by_rule fragile (size' (vec [Some (1::nat), Some 7] 2)) (Threw = Returned ())
      (drop 1 [Call CopyCtor, Call CopyCtor, Call CopyCtor, Call Dtor, Leak])"
    using transfer_rule[where v = "vec [Some 1, Some 7] 2" and a = "Lvalue 3" and T = fragile
        and r = Threw and v' = "vec [Some 1, Some 7] 2"
        and e = "[Call CopyCtor, Call CopyCtor, Call CopyCtor, Call Dtor, Leak]",
        THEN conjunct1] full7 failed
    by blast
  then have rule_failed: "transferred_by_rule fragile 2 False
      [Call CopyCtor, Call CopyCtor, Call Dtor, Leak]"
    by (simp only: sz7 dl outcome.distinct simp_thms)
  have no_move: "count_list [Call CopyCtor, Call CopyCtor, Call Dtor, Call Dtor] (Call MoveCtor) = 0"
    using transfer_rule[where T = fragile and n = 2 and returned = True
        and e' = "[Call CopyCtor, Call CopyCtor, Call Dtor, Call Dtor]",
        THEN conjunct2, THEN conjunct2, THEN conjunct2, THEN conjunct2, THEN conjunct1]
      fr rule_copy
    by blast
  have "elements (fst (snd (PushBack fragile ?v (Lvalue 3)))) = elements ?v @ [value_of (Lvalue 3)]"
    using transfer_rule[where v = ?v and a = "Lvalue 3" and T = fragile, THEN conjunct2, THEN conjunct2, THEN conjunct2,
        THEN conjunct2, THEN conjunct2, THEN conjunct1] v full f na nt'
    by blast
  then have els: "elements ?w = elements ?v @ [value_of (Lvalue 3)]"
    by (simp only: copied fst_conv snd_conv)
  have "elements (fst (snd (Reserve fragile ?v 4))) = elements ?v"
    using transfer_rule[where v = ?v and T = fragile and c = 4, THEN conjunct2, THEN conjunct2,
        THEN conjunct2, THEN conjunct2, THEN conjunct2, THEN conjunct2] v lt f4 nt'
    by blast
  then have kept: "elements (vec [Some (1::nat), Some 2, None, None] 2) = elements ?v"
    by (simp only: reserved fst_conv snd_conv)
  from v full f na nt copied rule_copy no_move moved rule_move emplaced els inserted lt f4
    reserved kept reserved_moving failed rule_failed
  show ?thesis by (intro conjI)
qed

end
